theory Spec2Isabelle
  imports Complex_Main "HOL-Library.AList"
begin

section \<open>Vocabulary and tokenizer\<close>

text \<open>
  The notebook keeps the vocabulary in a Python dict \<^verbatim>\<open>word_to_index\<close>. A dict keeps
  its items in insertion order and \<^verbatim>\<open>len\<close> counts them, so the model is an association
  list in insertion order: \<^verbatim>\<open>w in d\<close> is \<open>map_of d w \<noteq> None\<close>, \<^verbatim>\<open>d[w]\<close> is
  \<open>map_of d w\<close> (KeyError when it is \<open>None\<close>), \<^verbatim>\<open>d[w] = v\<close> is \<open>AList.update w v d\<close>
  (overwrite in place, or append a new item) and \<^verbatim>\<open>len(d)\<close> is \<open>length d\<close>.
\<close>

datatype error = KeyError | ValueError | RuntimeError

type_synonym vocab = "(string \<times> nat) list"

definition START_OF_SEQUENCE :: string where "START_OF_SEQUENCE = ''<SOS>''"
definition END_OF_SEQUENCE :: string where "END_OF_SEQUENCE = ''<EOS>''"
definition PADDING_SEQUENCE :: string where "PADDING_SEQUENCE = ''<PAD>''"

text \<open>The baseline vocabulary of the second experiment: only the three control tokens.\<close>

definition initial_vocab :: vocab where
  "initial_vocab = [(START_OF_SEQUENCE, 0), (END_OF_SEQUENCE, 1), (PADDING_SEQUENCE, 2)]"

definition getitem :: "('k \<times> 'v) list \<Rightarrow> 'k \<Rightarrow> error + 'v" where
  "getitem d k = (case map_of d k of None \<Rightarrow> Inl KeyError | Some v \<Rightarrow> Inr v)"

text \<open>
  \<^verbatim>\<open>sentence.lower().split()\<close> on ASCII text: upper-case letters are folded, and the
  sentence is cut at runs of white space (no empty words).
\<close>

definition lower_char :: "char \<Rightarrow> char" where
  "lower_char c = (let n = (of_char c :: nat) in if 65 \<le> n \<and> n \<le> 90 then char_of (n + 32) else c)"

definition is_space :: "char \<Rightarrow> bool" where
  "is_space c = ((of_char c :: nat) \<in> {9, 10, 11, 12, 13, 28, 29, 30, 31, 32})"

fun split_acc :: "string \<Rightarrow> string \<Rightarrow> string list" where
  "split_acc cur [] = (if cur = [] then [] else [rev cur])"
| "split_acc cur (c # cs) =
     (if is_space c then (if cur = [] then split_acc [] cs else rev cur # split_acc [] cs)
      else split_acc (c # cur) cs)"

definition lower_split :: "string \<Rightarrow> string list" where
  "lower_split sentence = split_acc [] (map lower_char sentence)"

text \<open>
  The loop of \<^verbatim>\<open>tokenize\<close> over the words. The lookup \<^verbatim>\<open>word_to_index[word]\<close> that
  follows the insertion is written into both branches: for a word just inserted it reads
  back the id \<^verbatim>\<open>len(word_to_index)\<close> taken before the insertion.
\<close>

fun tokenize_words :: "string list \<Rightarrow> vocab \<Rightarrow> nat list \<times> vocab" where
  "tokenize_words [] word_to_index = ([], word_to_index)"
| "tokenize_words (word # ws) word_to_index =
     (case map_of word_to_index word of
        None \<Rightarrow>
          (let word_to_index' = AList.update word (length word_to_index) word_to_index;
               (tokens, final) = tokenize_words ws word_to_index'
           in (length word_to_index # tokens, final))
      | Some i \<Rightarrow>
          (let (tokens, final) = tokenize_words ws word_to_index
           in (i # tokens, final)))"

definition tokenize :: "string \<Rightarrow> vocab \<Rightarrow> nat list \<times> vocab" where
  "tokenize sentence word_to_index = tokenize_words (lower_split sentence) word_to_index"

text \<open>The words of a list in order of first occurrence.\<close>

fun first_occurrences :: "'a list \<Rightarrow> 'a list" where
  "first_occurrences [] = []"
| "first_occurrences (x # xs) = x # filter (\<lambda>y. y \<noteq> x) (first_occurrences xs)"

definition new_words :: "string list \<Rightarrow> vocab \<Rightarrow> string list" where
  "new_words ws word_to_index =
     filter (\<lambda>w. map_of word_to_index w = None) (first_occurrences ws)"

text \<open>
  The preprocessing cell: every input sentence is tokenized, then every target sentence,
  wrapped in the start and end ids; the inverse dict is built afterwards by the
  comprehension \<^verbatim>\<open>{v: k for k, v in word_to_index.items()}\<close>.
\<close>

fun tokenize_inputs :: "string list \<Rightarrow> vocab \<Rightarrow> nat list list \<times> vocab" where
  "tokenize_inputs [] word_to_index = ([], word_to_index)"
| "tokenize_inputs (sentence # rest) word_to_index =
     (let (tokens, w1) = tokenize sentence word_to_index;
          (more, w2) = tokenize_inputs rest w1
      in (tokens # more, w2))"

fun tokenize_targets :: "string list \<Rightarrow> vocab \<Rightarrow> error + nat list list \<times> vocab" where
  "tokenize_targets [] word_to_index = Inr ([], word_to_index)"
| "tokenize_targets (sentence # rest) word_to_index =
     (case getitem word_to_index START_OF_SEQUENCE of
        Inl e \<Rightarrow> Inl e
      | Inr sos \<Rightarrow>
          (let (tokens, w1) = tokenize sentence word_to_index in
           case getitem w1 END_OF_SEQUENCE of
             Inl e \<Rightarrow> Inl e
           | Inr eos \<Rightarrow>
               (case tokenize_targets rest w1 of
                  Inl e \<Rightarrow> Inl e
                | Inr (more, w2) \<Rightarrow> Inr ((sos # tokens @ [eos]) # more, w2))))"

definition invert_vocab :: "vocab \<Rightarrow> (nat \<times> string) list" where
  "invert_vocab word_to_index = fold (\<lambda>(k, v) d. AList.update v k d) word_to_index []"

record corpus =
  input_data :: "nat list list"
  target_data :: "nat list list"
  word_to_index :: vocab
  index_to_word :: "(nat \<times> string) list"

definition prepare_corpus :: "string list \<Rightarrow> string list \<Rightarrow> error + corpus" where
  "prepare_corpus input_sentences target_sentences =
     (let (ins, w1) = tokenize_inputs input_sentences initial_vocab in
      case tokenize_targets target_sentences w1 of
        Inl e \<Rightarrow> Inl e
      | Inr (tgts, w2) \<Rightarrow>
          Inr \<lparr>input_data = ins, target_data = tgts, word_to_index = w2,
               index_to_word = invert_vocab w2\<rparr>)"

text \<open>The ids of a vocabulary grown from the reserved tokens are its positions.\<close>

definition ids_in_order :: "vocab \<Rightarrow> bool" where
  "ids_in_order v = (map snd v = [0 ..< length v])"

section \<open>Attention\<close>

text \<open>
  \<^verbatim>\<open>Attention.forward\<close> over the reals. A tensor of shape (batch, time, feature) is a
  list of lists of lists, the learned layer \<^verbatim>\<open>nn.Linear(2H, H)\<close> is its weight matrix and
  bias, and \<^verbatim>\<open>v\<close> the learned vector. For each batch element the hidden state is
  repeated along the time axis and concatenated with each encoder output, sent through the
  layer and \<^verbatim>\<open>tanh\<close>, reduced to one score per timestep by the product with \<^verbatim>\<open>v\<close>, and
  the scores are normalised by \<^verbatim>\<open>softmax\<close> along the time axis. Rounding, overflow and
  the shape errors of the tensor library are outside this model.
\<close>

record attention_params =
  attn_weight :: "real list list"
  attn_bias :: "real list"
  attn_v :: "real list"

text \<open>The dot product, the affine layer and the exponential normalisation.\<close>

definition dot :: "real list \<Rightarrow> real list \<Rightarrow> real" where
  "dot xs ys = (\<Sum>(x, y)\<leftarrow>zip xs ys. x * y)"

definition linear :: "real list list \<Rightarrow> real list \<Rightarrow> real list \<Rightarrow> real list" where
  "linear W b x = map (\<lambda>(row, bi). dot row x + bi) (zip W b)"

definition softmax :: "real list \<Rightarrow> real list" where
  "softmax xs = map (\<lambda>x. exp x / (\<Sum>y\<leftarrow>xs. exp y)) xs"

definition attention_scores :: "attention_params \<Rightarrow> real list \<Rightarrow> real list list \<Rightarrow> real list" where
  "attention_scores p hidden encoder_outputs =
     map (\<lambda>e. dot (attn_v p) (map tanh (linear (attn_weight p) (attn_bias p) (hidden @ e))))
       encoder_outputs"

definition Attention_forward ::
  "attention_params \<Rightarrow> real list list \<Rightarrow> real list list list \<Rightarrow> real list list" where
  "Attention_forward p hidden encoder_outputs =
     map (\<lambda>(h, e). softmax (attention_scores p h e)) (zip hidden encoder_outputs)"


text \<open>Parameters of a small attention layer (hidden size 2) used in the examples.\<close>

definition p0 :: attention_params where
  "p0 = \<lparr>attn_weight = [[1, 0, 0, 1], [0, 1, 1, 0]], attn_bias = [0, 1], attn_v = [1, 2]\<rparr>"

section \<open>Training: the timestep loop of one batch\<close>

text \<open>
  The body of the batch loop of \<^verbatim>\<open>train\<close>, from the encoder pass to the end of the timestep
  loop. The encoder and the decoder networks are parameters: the loop is the same for every
  network, and the properties below hold for all of them. A batch of token ids (a tensor
  of shape (batch, time)) is a list of rows of equal length. A loss value is a real number
  or \<open>None\<close> for the NaN that a division \<^verbatim>\<open>0 / 0\<close> produces in the tensor library.
\<close>

type_synonym ('h, 'c, 'e, 'a) decoder =
  "nat list \<Rightarrow> 'h \<Rightarrow> 'c \<Rightarrow> 'e \<Rightarrow> real list list \<times> 'h \<times> 'c \<times> 'a"

type_synonym ('h, 'c, 'e) encoder = "nat list list \<Rightarrow> 'e \<times> 'h \<times> 'c"

text \<open>
  The per-example term of \<^verbatim>\<open>nn.CrossEntropyLoss\<close>: the negative log-probability that the
  softmax of the logits gives to the target class (for a target below the number of
  classes; the library rejects any other target).
\<close>

definition cross_entropy :: "real list \<Rightarrow> nat \<Rightarrow> real" where
  "cross_entropy logits y = ln (\<Sum>z\<leftarrow>logits. exp z) - logits ! y"

text \<open>
  \<^verbatim>\<open>criterion = nn.CrossEntropyLoss(ignore_index=word_to_index[PADDING_SEQUENCE])\<close> with
  the default reduction \<^verbatim>\<open>'mean'\<close>: one scalar, the mean of the per-example terms \<open>ce\<close>
  over the examples whose target is not the ignored index; NaN when every target is
  ignored.
\<close>

definition criterion ::
  "(real list \<Rightarrow> nat \<Rightarrow> real) \<Rightarrow> nat \<Rightarrow> real list list \<Rightarrow> nat list \<Rightarrow> real option" where
  "criterion ce ignore_index output target =
     (let kept = filter (\<lambda>(logits, y). y \<noteq> ignore_index) (zip output target)
      in if kept = [] then None
         else Some ((\<Sum>(logits, y)\<leftarrow>kept. ce logits y) / real (length kept)))"

text \<open>
  The term added to the loss at one timestep:
  \<^verbatim>\<open>(criterion(output, target_seq[:, t]) * still_active.float()).sum() / still_active.sum()\<close>.
  The scalar of \<^verbatim>\<open>criterion\<close> is broadcast over the mask.
\<close>

definition masked_step_loss ::
  "(real list \<Rightarrow> nat \<Rightarrow> real) \<Rightarrow> nat \<Rightarrow> real list list \<Rightarrow> nat list \<Rightarrow> bool list \<Rightarrow> real option" where
  "masked_step_loss ce pad output target_col still_active =
     (case criterion ce pad output target_col of
        None \<Rightarrow> None
      | Some c \<Rightarrow>
          if length (filter id still_active) = 0 then None
          else Some ((\<Sum>a\<leftarrow>still_active. c * (if a then 1 else 0)) /
                     real (length (filter id still_active))))"

definition nan_add :: "real option \<Rightarrow> real option \<Rightarrow> real option" where
  "nan_add x y = (case (x, y) of (Some a, Some b) \<Rightarrow> Some (a + b) | _ \<Rightarrow> None)"

text \<open>\<^verbatim>\<open>(target_seq != pad).sum(dim=1)\<close>, \<^verbatim>\<open>.max()\<close> (an error on an empty tensor),
  \<^verbatim>\<open>target_seq[:, t]\<close> and \<^verbatim>\<open>t < target_lengths\<close>. The loop reads a column only for
  \<open>t\<close> below the maximum target length, which is at most the width of the batch.\<close>

definition target_lengths :: "nat \<Rightarrow> nat list list \<Rightarrow> nat list" where
  "target_lengths pad target_seq = map (\<lambda>row. length (filter (\<lambda>y. y \<noteq> pad) row)) target_seq"

definition tensor_max :: "nat list \<Rightarrow> error + nat" where
  "tensor_max xs = (case xs of [] \<Rightarrow> Inl RuntimeError | x # rest \<Rightarrow> Inr (fold max rest x))"

definition column :: "nat \<Rightarrow> nat list list \<Rightarrow> nat list" where
  "column t target_seq = map (\<lambda>row. row ! t) target_seq"

definition still_active :: "nat \<Rightarrow> nat list \<Rightarrow> bool list" where
  "still_active t lens = map (\<lambda>l. t < l) lens"

record ('h, 'c, 'a) train_state =
  loss :: "real option"
  decoder_input :: "nat list"
  decoder_hidden :: 'h
  decoder_cell :: 'c
  attention_weights :: "'a option"

text \<open>The loop \<^verbatim>\<open>for t in range(max_target_length)\<close>, over the list of the values of \<open>t\<close>.\<close>

fun timestep_loop ::
  "('h, 'c, 'e, 'a) decoder \<Rightarrow> (real list \<Rightarrow> nat \<Rightarrow> real) \<Rightarrow> nat \<Rightarrow> nat list list \<Rightarrow> nat list \<Rightarrow> 'e \<Rightarrow>
   nat list \<Rightarrow> ('h, 'c, 'a) train_state \<Rightarrow> ('h, 'c, 'a) train_state" where
  "timestep_loop decoder ce pad target_seq lens encoder_outputs [] st = st"
| "timestep_loop decoder ce pad target_seq lens encoder_outputs (t # ts) st =
     (if \<not> list_ex id (still_active t lens) then st
      else
        (case decoder (decoder_input st) (decoder_hidden st) (decoder_cell st) encoder_outputs of
           (output, h, c, a) \<Rightarrow>
             timestep_loop decoder ce pad target_seq lens encoder_outputs ts
               \<lparr>loss = nan_add (loss st)
                  (masked_step_loss ce pad output (column t target_seq) (still_active t lens)),
                decoder_input = column t target_seq,
                decoder_hidden = h, decoder_cell = c, attention_weights = Some a\<rparr>))"

text \<open>
  One batch of \<^verbatim>\<open>train\<close> up to the end of the timestep loop (the gradient step that
  follows does not change the loss value). \<^verbatim>\<open>criterion\<close> was built with the pad id of
  the same \<^verbatim>\<open>word_to_index\<close> that the loop reads.
\<close>

definition train_batch ::
  "('h, 'c, 'e) encoder \<Rightarrow> ('h, 'c, 'e, 'a) decoder \<Rightarrow> (real list \<Rightarrow> nat \<Rightarrow> real) \<Rightarrow> vocab \<Rightarrow>
   nat list list \<Rightarrow> nat list list \<Rightarrow> error + ('h, 'c, 'a) train_state" where
  "train_batch encoder decoder ce w2i input_seq target_seq =
     (case encoder input_seq of (encoder_outputs, hidden, cell) \<Rightarrow>
       (case getitem w2i START_OF_SEQUENCE of
          Inl e \<Rightarrow> Inl e
        | Inr sos \<Rightarrow>
            (case getitem w2i PADDING_SEQUENCE of
               Inl e \<Rightarrow> Inl e
             | Inr pad \<Rightarrow>
                 (case tensor_max (target_lengths pad target_seq) of
                    Inl e \<Rightarrow> Inl e
                  | Inr max_target_length \<Rightarrow>
                      Inr (timestep_loop decoder ce pad target_seq (target_lengths pad target_seq)
                             encoder_outputs [0 ..< max_target_length]
                             \<lparr>loss = Some 0, decoder_input = replicate (length input_seq) sos,
                              decoder_hidden = hidden, decoder_cell = cell,
                              attention_weights = None\<rparr>)))))"

subsection \<open>The specification's wording of the loss and of teacher forcing\<close>

text \<open>
  The masked mean as the specification words it: the per-example losses, with the inactive
  examples set to zero, summed and divided by the number of active examples.
\<close>

definition spec_masked_mean ::
  "(real list \<Rightarrow> nat \<Rightarrow> real) \<Rightarrow> real list list \<Rightarrow> nat list \<Rightarrow> bool list \<Rightarrow> real" where
  "spec_masked_mean ce output target_col active =
     (\<Sum>(logits, y, a)\<leftarrow>zip output (zip target_col active). if a then ce logits y else 0) /
     real (length (filter id active))"

text \<open>A row is right-padded when the pad id occurs in it only as a trailing run.\<close>

definition right_padded :: "nat \<Rightarrow> nat list \<Rightarrow> bool" where
  "right_padded pad row = list_all (\<lambda>y. y = pad) (dropWhile (\<lambda>y. y \<noteq> pad) row)"

text \<open>
  \<^verbatim>\<open>pad_sequence(tensors, batch_first=True, padding_value=pad)\<close>: every sequence is
  extended at its end with the pad id to the length of the longest one.
\<close>

definition pad_sequence :: "nat \<Rightarrow> nat list list \<Rightarrow> nat list list" where
  "pad_sequence padding_value sequences =
     (let width = fold max (map length sequences) 0
      in map (\<lambda>s. s @ replicate (width - length s) padding_value) sequences)"

text \<open>
  Teacher forcing as a trajectory: the decoder input and recurrent state on entry to
  timestep \<open>t\<close> when every next input is the ground-truth column, and the logits the decoder
  returns at timestep \<open>t\<close> on that trajectory.
\<close>

fun teacher_forced ::
  "('h, 'c, 'e, 'a) decoder \<Rightarrow> 'e \<Rightarrow> nat list list \<Rightarrow> nat list \<times> 'h \<times> 'c \<Rightarrow> nat \<Rightarrow> nat list \<times> 'h \<times> 'c" where
  "teacher_forced decoder encoder_outputs target_seq s0 0 = s0"
| "teacher_forced decoder encoder_outputs target_seq s0 (Suc t) =
     (case teacher_forced decoder encoder_outputs target_seq s0 t of (inp, h, c) \<Rightarrow>
       (case decoder inp h c encoder_outputs of (output, h', c', a) \<Rightarrow>
          (column t target_seq, h', c')))"

definition teacher_forced_output ::
  "('h, 'c, 'e, 'a) decoder \<Rightarrow> 'e \<Rightarrow> nat list list \<Rightarrow> nat list \<times> 'h \<times> 'c \<Rightarrow> nat \<Rightarrow> real list list" where
  "teacher_forced_output decoder encoder_outputs target_seq s0 t =
     (case teacher_forced decoder encoder_outputs target_seq s0 t of (inp, h, c) \<Rightarrow>
        fst (decoder inp h c encoder_outputs))"

text \<open>A small encoder and decoder without recurrent state, used in the examples: the logits of
  an example depend on its input token only.\<close>

definition example_decoder :: "(unit, unit, unit, unit) decoder" where
  "example_decoder inp h c e = (map (\<lambda>tok. [real tok, 0, 0, 0]) inp, (), (), ())"

definition example_encoder :: "(unit, unit, unit) encoder" where
  "example_encoder input_seq = ((), (), ())"

section \<open>Greedy decoding at inference time\<close>

text \<open>
  \<^verbatim>\<open>generate_predictions\<close> and \<^verbatim>\<open>test\<close>. Both look the words of the input sentence up
  (\<^verbatim>\<open>input_sentence.split()\<close>, without lower-casing), run the encoder on a batch of one,
  and drive the decoder from the start token, feeding each prediction back. The list
  comprehension \<^verbatim>\<open>[d[k] for k in ks]\<close> stops at the first missing key.
\<close>

definition py_split :: "string \<Rightarrow> string list" where
  "py_split sentence = split_acc [] sentence"

fun lookup_all :: "('k \<times> 'v) list \<Rightarrow> 'k list \<Rightarrow> error + 'v list" where
  "lookup_all d [] = Inr []"
| "lookup_all d (k # ks) =
     (case getitem d k of
        Inl e \<Rightarrow> Inl e
      | Inr v \<Rightarrow> (case lookup_all d ks of Inl e \<Rightarrow> Inl e | Inr vs \<Rightarrow> Inr (v # vs)))"

text \<open>
  \<^verbatim>\<open>output.argmax(1).item()\<close>: the index of the largest logit of the single row of the batch
  (the first one among equals); an error when the row is empty or the batch is not of size
  one.
\<close>

fun argmax_from :: "nat \<Rightarrow> real \<Rightarrow> nat \<Rightarrow> real list \<Rightarrow> nat" where
  "argmax_from best best_value i [] = best"
| "argmax_from best best_value i (x # xs) =
     (if best_value < x then argmax_from i x (Suc i) xs
      else argmax_from best best_value (Suc i) xs)"

definition argmax :: "real list \<Rightarrow> nat" where
  "argmax row = (case row of [] \<Rightarrow> 0 | x # xs \<Rightarrow> argmax_from 0 x 1 xs)"

definition predicted_token :: "real list list \<Rightarrow> error + nat" where
  "predicted_token output =
     (case output of
        [row] \<Rightarrow> (if row = [] then Inl RuntimeError else Inr (argmax row))
      | _ \<Rightarrow> Inl RuntimeError)"

text \<open>
  The loop \<^verbatim>\<open>for _ in range(max_target_length)\<close>, by recursion on the number of iterations
  left. Its state is the decoder input with the recurrent state, the output sequence and
  the attention matrices collected so far. The last component counts the calls of the
  decoder; it is not a variable of the source and serves to state the bound on the number
  of decoder steps.
\<close>

fun greedy_loop ::
  "('h, 'c, 'e, 'a) decoder \<Rightarrow> vocab \<Rightarrow> 'e \<Rightarrow> nat \<Rightarrow> nat list \<times> 'h \<times> 'c \<Rightarrow>
   nat list \<Rightarrow> 'a list \<Rightarrow> nat \<Rightarrow> error + nat list \<times> 'a list \<times> nat" where
  "greedy_loop decoder w2i encoder_outputs 0 s output_sequence attention_matrices steps =
     Inr (output_sequence, attention_matrices, steps)"
| "greedy_loop decoder w2i encoder_outputs (Suc n) s output_sequence attention_matrices steps =
     (case s of (token_input, hidden, cell) \<Rightarrow>
       (case decoder token_input hidden cell encoder_outputs of
          (output, h, c, a) \<Rightarrow>
            (case predicted_token output of
               Inl e \<Rightarrow> Inl e
             | Inr tok \<Rightarrow>
                 (case getitem w2i END_OF_SEQUENCE of
                    Inl e \<Rightarrow> Inl e
                  | Inr eos \<Rightarrow>
                      if tok = eos then Inr (output_sequence, attention_matrices, Suc steps)
                      else greedy_loop decoder w2i encoder_outputs n ([tok], h, c)
                             (output_sequence @ [tok]) (attention_matrices @ [a]) (Suc steps)))))"

text \<open>
  The argmax predictions of up to \<open>n\<close> decoder steps when every prediction is fed back as
  the next input, whatever it is (the end token too), up to the first step whose output has
  no argmax. Greedy decoding is stated against this run: it returns the part of it before
  the first end token.
\<close>

fun greedy_predictions ::
  "('h, 'c, 'e, 'a) decoder \<Rightarrow> 'e \<Rightarrow> nat \<Rightarrow> nat list \<times> 'h \<times> 'c \<Rightarrow> nat list" where
  "greedy_predictions decoder encoder_outputs 0 s = []"
| "greedy_predictions decoder encoder_outputs (Suc n) s =
     (case s of (token_input, hidden, cell) \<Rightarrow>
       (case decoder token_input hidden cell encoder_outputs of
          (output, h, c, a) \<Rightarrow>
            (case predicted_token output of
               Inl e \<Rightarrow> []
             | Inr tok \<Rightarrow> tok # greedy_predictions decoder encoder_outputs n ([tok], h, c))))"

text \<open>
  The part both functions share: tokens of the input, encoder pass, start token, loop.
  The result keeps the input tokens for \<^verbatim>\<open>test\<close>.
\<close>

definition greedy_decode ::
  "('h, 'c, 'e) encoder \<Rightarrow> ('h, 'c, 'e, 'a) decoder \<Rightarrow> string \<Rightarrow> vocab \<Rightarrow> nat \<Rightarrow>
   error + nat list \<times> nat list \<times> 'a list \<times> nat" where
  "greedy_decode encoder decoder input_sentence w2i max_target_length =
     (case lookup_all w2i (py_split input_sentence) of
        Inl e \<Rightarrow> Inl e
      | Inr input_tokens \<Rightarrow>
          (case encoder [input_tokens] of (encoder_outputs, hidden, cell) \<Rightarrow>
            (case getitem w2i START_OF_SEQUENCE of
               Inl e \<Rightarrow> Inl e
             | Inr sos \<Rightarrow>
                 (case greedy_loop decoder w2i encoder_outputs max_target_length
                         ([sos], hidden, cell) [] [] 0 of
                    Inl e \<Rightarrow> Inl e
                  | Inr (output_sequence, attention_matrices, steps) \<Rightarrow>
                      Inr (input_tokens, output_sequence, attention_matrices, steps)))))"

definition generate_predictions ::
  "('h, 'c, 'e) encoder \<Rightarrow> ('h, 'c, 'e, 'a) decoder \<Rightarrow> string \<Rightarrow> vocab \<Rightarrow> (nat \<times> string) list \<Rightarrow>
   nat \<Rightarrow> error + string list" where
  "generate_predictions encoder decoder input_sentence w2i i2w max_target_length =
     (case greedy_decode encoder decoder input_sentence w2i max_target_length of
        Inl e \<Rightarrow> Inl e
      | Inr (input_tokens, output_sequence, attention_matrices, steps) \<Rightarrow>
          lookup_all i2w output_sequence)"

text \<open>
  \<^verbatim>\<open>test\<close> converts the input and output tokens to words, stacks the attention matrices
  with \<^verbatim>\<open>np.vstack\<close>, which raises ValueError on an empty list, prints, and returns the
  output words. Printing and plotting are left out.
\<close>

definition vstack :: "'a list \<Rightarrow> error + 'a list" where
  "vstack arrays = (if arrays = [] then Inl ValueError else Inr arrays)"

definition test ::
  "('h, 'c, 'e) encoder \<Rightarrow> ('h, 'c, 'e, 'a) decoder \<Rightarrow> string \<Rightarrow> vocab \<Rightarrow> (nat \<times> string) list \<Rightarrow>
   nat \<Rightarrow> error + string list" where
  "test encoder decoder input_sentence w2i i2w max_target_length =
     (case greedy_decode encoder decoder input_sentence w2i max_target_length of
        Inl e \<Rightarrow> Inl e
      | Inr (input_tokens, output_sequence, attention_matrices, steps) \<Rightarrow>
          (case lookup_all i2w input_tokens of
             Inl e \<Rightarrow> Inl e
           | Inr input_sentence_tokens \<Rightarrow>
               (case lookup_all i2w output_sequence of
                  Inl e \<Rightarrow> Inl e
                | Inr output_sentence_tokens \<Rightarrow>
                    (case vstack attention_matrices of
                       Inl e \<Rightarrow> Inl e
                     | Inr attention_matrix \<Rightarrow> lookup_all i2w output_sequence))))"

text \<open>
  Decoders for the examples over the vocabulary \<open>example_vocab\<close> (four classes): one
  answers the start token with \<^verbatim>\<open>two\<close> and anything else with the end token, the other
  answers the end token at once.
\<close>

definition example_greedy_decoder :: "(unit, unit, unit, unit) decoder" where
  "example_greedy_decoder inp h c e =
     (map (\<lambda>tok. if tok = 0 then [0, 0, 0, 1] else [0, 1, 0, 0]) inp, (), (), ())"

definition example_eos_decoder :: "(unit, unit, unit, unit) decoder" where
  "example_eos_decoder inp h c e = (map (\<lambda>tok. [0, 1, 0, 0]) inp, (), (), ())"

definition example_vocab :: vocab where
  "example_vocab = [(''<SOS>'', 0), (''<EOS>'', 1), (''<PAD>'', 2), (''two'', 3)]"

section \<open>Dataset generator\<close>

text \<open>
  \<^verbatim>\<open>SimpleMathProblemsGenerator\<close>. The random module is an input of the model: one
  \<open>draw\<close> holds what the calls of one loop iteration return, the two calls
  \<^verbatim>\<open>random.randint(1, 100)\<close>, the index of the element \<^verbatim>\<open>random.choice\<close> picks, and the
  value of the third \<^verbatim>\<open>randint\<close> call, which is made only when the divisor is resampled.
  \<open>valid_draw\<close> is the contract of these library calls; \<open>draw_in_range\<close> is weaker: it
  leaves the first operand free and lets the first draw of the second operand be 0 as
  well, the case the resampling line of the source is written for. Python's float division and
  \<^verbatim>\<open>round(_, 2)\<close> and the library function \<^verbatim>\<open>num2words\<close> are parameters.
\<close>

datatype 'f py_num = IntV int | FloatV 'f

record draw =
  draw_num1 :: int
  draw_num2 :: int
  draw_choice :: nat
  draw_resample :: int

definition valid_draw :: "draw \<Rightarrow> bool" where
  "valid_draw d =
     (1 \<le> draw_num1 d \<and> draw_num1 d \<le> 100 \<and> 1 \<le> draw_num2 d \<and> draw_num2 d \<le> 100 \<and>
      draw_choice d < 4 \<and> 1 \<le> draw_resample d \<and> draw_resample d \<le> 100)"

definition draw_in_range :: "draw \<Rightarrow> bool" where
  "draw_in_range d =
     (0 \<le> draw_num2 d \<and> draw_num2 d \<le> 100 \<and> draw_choice d < 4 \<and>
      1 \<le> draw_resample d \<and> draw_resample d \<le> 100)"

text \<open>The list \<^verbatim>\<open>self.operations\<close>; \<open>None\<close> is Python's \<^verbatim>\<open>None\<close>.\<close>

definition operations ::
  "(int \<Rightarrow> int \<Rightarrow> 'f) \<Rightarrow> ('f \<Rightarrow> 'f) \<Rightarrow> (string \<times> (int \<Rightarrow> int \<Rightarrow> 'f py_num option)) list" where
  "operations fdiv round2 =
     [(''plus'', \<lambda>x y. Some (IntV (x + y))),
      (''minus'', \<lambda>x y. Some (IntV (x - y))),
      (''times'', \<lambda>x y. Some (IntV (x * y))),
      (''divided by'', \<lambda>x y. if y \<noteq> 0 then Some (FloatV (round2 (fdiv x y))) else None)]"

text \<open>\<^verbatim>\<open>s.replace(c, t)\<close> for a single character \<open>c\<close>.\<close>

definition replace_char :: "char \<Rightarrow> string \<Rightarrow> string \<Rightarrow> string" where
  "replace_char c t s = concat (map (\<lambda>x. if x = c then t else [x]) s)"

record 'f problem =
  num1 :: int
  num2 :: int
  operation :: string
  result :: "'f py_num option"
  question :: string
  answer :: string

text \<open>The body of the loop of \<^verbatim>\<open>generate_problem\<close> up to the uniqueness test.\<close>

definition make_problem ::
  "(int \<Rightarrow> int \<Rightarrow> 'f) \<Rightarrow> ('f \<Rightarrow> 'f) \<Rightarrow> ('f py_num \<Rightarrow> string) \<Rightarrow> draw \<Rightarrow> 'f problem" where
  "make_problem fdiv round2 num2words d =
     (let n1 = draw_num1 d;
          n2 = draw_num2 d;
          (op_name, func) = operations fdiv round2 ! draw_choice d;
          n2 = (if op_name = ''divided by'' \<and> n2 = 0 then draw_resample d else n2);
          res = func n1 n2;
          result_word =
            (case res of
               Some r \<Rightarrow> replace_char CHR '','' '''' (replace_char CHR ''-'' '' '' (num2words r))
             | None \<Rightarrow> ''undefined'')
      in \<lparr>num1 = n1, num2 = n2, operation = op_name, result = res,
          question = replace_char CHR ''-'' '' ''
            (num2words (IntV n1) @ '' '' @ op_name @ '' '' @ num2words (IntV n2)),
          answer = result_word\<rparr>)"

text \<open>
  \<^verbatim>\<open>generate_problem\<close>: the loop \<^verbatim>\<open>while True\<close> runs until a pair not yet seen comes
  up, which need not happen. The model runs it on the list of the draws that are available;
  \<open>None\<close> means that the loop is still running when they are used up. A result carries the
  updated set \<^verbatim>\<open>existing_questions_and_answers\<close> and the draws left.
\<close>

fun generate_problem ::
  "(int \<Rightarrow> int \<Rightarrow> 'f) \<Rightarrow> ('f \<Rightarrow> 'f) \<Rightarrow> ('f py_num \<Rightarrow> string) \<Rightarrow> draw list \<Rightarrow> (string \<times> string) set \<Rightarrow>
   ((string \<times> string) \<times> (string \<times> string) set \<times> draw list) option" where
  "generate_problem fdiv round2 num2words [] existing = None"
| "generate_problem fdiv round2 num2words (d # ds) existing =
     (let p = make_problem fdiv round2 num2words d in
      if (question p, answer p) \<notin> existing
      then Some ((question p, answer p), insert (question p, answer p) existing, ds)
      else generate_problem fdiv round2 num2words ds existing)"

text \<open>\<^verbatim>\<open>generate_dataset\<close>: \<^verbatim>\<open>[self.generate_problem() for _ in range(self.num_samples)]\<close>.\<close>

fun generate_dataset ::
  "(int \<Rightarrow> int \<Rightarrow> 'f) \<Rightarrow> ('f \<Rightarrow> 'f) \<Rightarrow> ('f py_num \<Rightarrow> string) \<Rightarrow> nat \<Rightarrow> draw list \<Rightarrow>
   (string \<times> string) set \<Rightarrow> ((string \<times> string) list \<times> (string \<times> string) set \<times> draw list) option" where
  "generate_dataset fdiv round2 num2words 0 ds existing = Some ([], existing, ds)"
| "generate_dataset fdiv round2 num2words (Suc n) ds existing =
     (case generate_problem fdiv round2 num2words ds existing of
        None \<Rightarrow> None
      | Some (qa, existing', ds') \<Rightarrow>
          (case generate_dataset fdiv round2 num2words n ds' existing' of
             None \<Rightarrow> None
           | Some (rows, existing'', ds'') \<Rightarrow> Some (qa # rows, existing'', ds'')))"

text \<open>
  Stand-ins for the library functions in the examples: exact division, rounding of the
  hundredfold to the nearest integer, and a \<^verbatim>\<open>num2words\<close> that knows the numbers of the
  example \<^verbatim>\<open>seven divided by two\<close>.
\<close>

definition example_fdiv :: "int \<Rightarrow> int \<Rightarrow> real" where
  "example_fdiv x y = real_of_int x / real_of_int y"

definition example_round2 :: "real \<Rightarrow> real" where
  "example_round2 x = real_of_int (round (x * 100)) / 100"

fun example_num2words :: "real py_num \<Rightarrow> string" where
  "example_num2words (IntV i) = (if i = 7 then ''seven'' else if i = 2 then ''two'' else ''many'')"
| "example_num2words (FloatV x) = (if x = 7 / 2 then ''three point five'' else ''some'')"

definition example_draw :: draw where
  "example_draw = \<lparr>draw_num1 = 7, draw_num2 = 0, draw_choice = 3, draw_resample = 2\<rparr>"

section \<open>Properties of the vocabulary\<close>

lemma update_absent: "map_of d k = None \<Longrightarrow> AList.update k v d = d @ [(k, v)]"
  by (induction d) (auto split: if_splits)

lemma new_words_absent:
  "map_of v w = None \<Longrightarrow> new_words (w # ws) v = w # new_words ws (v @ [(w, n)])"
  unfolding new_words_def
  by (auto simp: map_add_def intro!: filter_cong split: option.splits)

lemma new_words_present:
  "map_of v w = Some i \<Longrightarrow> new_words (w # ws) v = new_words ws v"
  unfolding new_words_def
  by (auto intro!: filter_cong)

lemma tokenize_words_vocab:
  "snd (tokenize_words ws v) =
     v @ zip (new_words ws v) [length v ..< length v + length (new_words ws v)]"
proof (induction ws arbitrary: v)
  case Nil
  then show ?case by (simp add: new_words_def)
next
  case (Cons w ws)
  show ?case
  proof (cases "map_of v w")
    case None
    have "snd (tokenize_words (w # ws) v) = snd (tokenize_words ws (v @ [(w, length v)]))"
      using None by (simp add: update_absent split: prod.splits)
    also have "\<dots> = (v @ [(w, length v)]) @ zip (new_words ws (v @ [(w, length v)]))
        [Suc (length v) ..< Suc (length v) + length (new_words ws (v @ [(w, length v)]))]"
      using Cons.IH [of "v @ [(w, length v)]"] by simp
    also have "\<dots> = v @ zip (new_words (w # ws) v)
        [length v ..< length v + length (new_words (w # ws) v)]"
      using None by (simp add: new_words_absent [where n = "length v"] upt_conv_Cons del: upt_Suc)
    finally show ?thesis .
  next
    case (Some i)
    then show ?thesis
      using Cons.IH [of v] by (auto simp: new_words_present split: prod.splits)
  qed
qed

lemma map_of_append_keep: "map_of v w = Some i \<Longrightarrow> map_of (v @ ext) w = Some i"
  by (simp add: map_add_def)

lemma tokenize_words_keeps:
  "map_of v w = Some i \<Longrightarrow> map_of (snd (tokenize_words ws v)) w = Some i"
  by (subst tokenize_words_vocab) (rule map_of_append_keep)

lemma tokenize_words_ids_in_order:
  "ids_in_order v \<Longrightarrow> ids_in_order (snd (tokenize_words ws v))"
  unfolding ids_in_order_def
  by (subst tokenize_words_vocab, subst tokenize_words_vocab)
     (simp add: upt_add_eq_append [symmetric])

lemma tokenize_inputs_inv:
  "tokenize_inputs ss v = (toks, v') \<Longrightarrow>
     (ids_in_order v \<longrightarrow> ids_in_order v') \<and> (\<forall>w i. map_of v w = Some i \<longrightarrow> map_of v' w = Some i)"
proof (induction ss arbitrary: v toks v')
  case Nil
  then show ?case by simp
next
  case (Cons s ss)
  obtain t w1 where t: "tokenize s v = (t, w1)" by (cases "tokenize s v")
  obtain m w2 where m: "tokenize_inputs ss w1 = (m, w2)" by (cases "tokenize_inputs ss w1")
  have w1: "w1 = snd (tokenize_words (lower_split s) v)"
    using t by (simp add: tokenize_def)
  from Cons.prems t m have "v' = w2" by simp
  with Cons.IH [OF m] show ?case
    by (auto simp: w1 tokenize_words_ids_in_order tokenize_words_keeps)
qed

lemma tokenize_targets_inv:
  "tokenize_targets ss v = Inr (toks, v') \<Longrightarrow>
     (ids_in_order v \<longrightarrow> ids_in_order v') \<and> (\<forall>w i. map_of v w = Some i \<longrightarrow> map_of v' w = Some i)"
proof (induction ss arbitrary: v toks v')
  case Nil
  then show ?case by simp
next
  case (Cons s ss)
  obtain t w1 where t: "tokenize s v = (t, w1)" by (cases "tokenize s v")
  have w1: "w1 = snd (tokenize_words (lower_split s) v)"
    using t by (simp add: tokenize_def)
  from Cons.prems t obtain m where m: "tokenize_targets ss w1 = Inr (m, v')"
    by (auto split: sum.splits)
  from Cons.IH [OF m] show ?case
    by (auto simp: w1 tokenize_words_ids_in_order tokenize_words_keeps)
qed

lemma tokenize_targets_total:
  "map_of v START_OF_SEQUENCE \<noteq> None \<Longrightarrow> map_of v END_OF_SEQUENCE \<noteq> None \<Longrightarrow>
     \<exists>r. tokenize_targets ss v = Inr r"
proof (induction ss arbitrary: v)
  case Nil
  then show ?case by simp
next
  case (Cons s ss)
  obtain t w1 where t: "tokenize s v = (t, w1)" by (cases "tokenize s v")
  have w1: "w1 = snd (tokenize_words (lower_split s) v)"
    using t by (simp add: tokenize_def)
  from Cons.prems obtain a b where ab: "map_of v START_OF_SEQUENCE = Some a" "map_of v END_OF_SEQUENCE = Some b"
    by auto
  then have k: "map_of w1 START_OF_SEQUENCE = Some a" "map_of w1 END_OF_SEQUENCE = Some b"
    by (simp_all add: w1 tokenize_words_keeps)
  then obtain r where "tokenize_targets ss w1 = Inr r"
    using Cons.IH [of w1] by auto
  then show ?case
    using ab k t by (cases r) (simp add: getitem_def)
qed

lemma fold_invert_other:
  "i \<notin> snd ` set xs \<Longrightarrow> fold (\<lambda>(k, v) m. m(v \<mapsto> k)) xs m i = m i"
  by (induction xs arbitrary: m) (auto split: prod.splits)

lemma fold_invert_hit:
  "distinct (map snd xs) \<Longrightarrow> (w, i) \<in> set xs \<Longrightarrow> fold (\<lambda>(k, v) m. m(v \<mapsto> k)) xs m i = Some w"
proof (induction xs arbitrary: m)
  case Nil
  then show ?case by simp
next
  case (Cons x xs)
  obtain k v where x: "x = (k, v)" by (cases x)
  show ?case
  proof (cases "(w, i) = x")
    case True
    with Cons.prems have "i \<notin> snd ` set xs" by force
    from fold_invert_other [OF this, of "m(i \<mapsto> w)"]
    have "fold (\<lambda>(k, v) m. m(v \<mapsto> k)) xs (m(i \<mapsto> w)) i = Some w"
      by simp
    with True x show ?thesis by (simp del: fun_upd_apply)
  next
    case False
    with Cons.prems have "distinct (map snd xs)" "(w, i) \<in> set xs" by auto
    then have "fold (\<lambda>(k, v) m. m(v \<mapsto> k)) xs (m(v \<mapsto> k)) i = Some w"
      by (rule Cons.IH)
    with x show ?thesis by (simp del: fun_upd_apply)
  qed
qed

lemma map_of_fold_update:
  "map_of (fold (\<lambda>(k, v) d. AList.update v k d) xs d) = fold (\<lambda>(k, v) m. m(v \<mapsto> k)) xs (map_of d)"
  by (induction xs arbitrary: d) (auto simp: update_conv' split: prod.splits)

lemma invert_vocab_roundtrip:
  "ids_in_order v \<Longrightarrow> map_of v w = Some i \<Longrightarrow> map_of (invert_vocab v) i = Some w"
proof -
  assume a: "ids_in_order v" and b: "map_of v w = Some i"
  from a have "distinct (map snd v)" by (simp add: ids_in_order_def)
  moreover from b have "(w, i) \<in> set v" by (rule map_of_SomeD)
  ultimately show ?thesis
    by (simp add: invert_vocab_def map_of_fold_update fold_invert_hit)
qed

lemma initial_ok: "ids_in_order initial_vocab"
  by (simp add: ids_in_order_def initial_vocab_def upt_rec)

text \<open>
  C5. Round trip of the two vocabulary maps. The preprocessing cell never fails, and in the
  corpus it builds (both sentence lists tokenized from the three reserved tokens, then the
  dict inverted) every word \<open>w\<close> that \<^verbatim>\<open>word_to_index\<close> holds satisfies
  \<^verbatim>\<open>index_to_word[word_to_index[w]] == w\<close>.
\<close>

theorem roundtrip:
  "(\<exists>c. prepare_corpus input_sentences target_sentences = Inr c) \<and>
   (\<forall>c w i. prepare_corpus input_sentences target_sentences = Inr c \<longrightarrow>
       getitem (word_to_index c) w = Inr i \<longrightarrow> getitem (index_to_word c) i = Inr w)"
proof -
  obtain ins w1 where i: "tokenize_inputs input_sentences initial_vocab = (ins, w1)"
    by (cases "tokenize_inputs input_sentences initial_vocab")
  from tokenize_inputs_inv [OF i] initial_ok
  have w1: "ids_in_order w1" "map_of w1 START_OF_SEQUENCE \<noteq> None" "map_of w1 END_OF_SEQUENCE \<noteq> None"
    by (simp_all add: initial_vocab_def START_OF_SEQUENCE_def END_OF_SEQUENCE_def)
  then obtain tgts w2 where t: "tokenize_targets target_sentences w1 = Inr (tgts, w2)"
    using tokenize_targets_total [of w1 target_sentences] by auto
  from tokenize_targets_inv [OF t] w1 have w2: "ids_in_order w2" by simp
  have c: "prepare_corpus input_sentences target_sentences =
      Inr \<lparr>input_data = ins, target_data = tgts, word_to_index = w2, index_to_word = invert_vocab w2\<rparr>"
    by (simp add: prepare_corpus_def i t)
  show ?thesis
    using w2 by (auto simp: c getitem_def invert_vocab_roundtrip split: option.splits)
qed


lemma set_first_occurrences: "set (first_occurrences xs) = set xs"
  by (induction xs) auto

lemma distinct_first_occurrences: "distinct (first_occurrences xs)"
  by (induction xs) (auto simp: set_first_occurrences)

lemma distinct_new_words: "distinct (new_words ws v)"
  by (simp add: new_words_def distinct_first_occurrences)

lemma set_new_words: "set (new_words ws v) = {w \<in> set ws. map_of v w = None}"
  by (auto simp: new_words_def set_first_occurrences)

lemma nth_not_in_take: "distinct xs \<Longrightarrow> k < length xs \<Longrightarrow> xs ! k \<notin> set (take k xs)"
  by (auto simp: in_set_conv_nth distinct_conv_nth)

lemma grown_entry:
  assumes "distinct N" "\<forall>w \<in> set N. map_of v w = None" "k < length N"
  shows "(v @ zip N [length v ..< length v + length N]) ! (length v + k) = (N ! k, length v + k)"
    and "map_of (take (length v + k) (v @ zip N [length v ..< length v + length N])) (N ! k) = None"
proof -
  show "(v @ zip N [length v ..< length v + length N]) ! (length v + k) = (N ! k, length v + k)"
    using assms(3) by (simp add: nth_append)
  have "N ! k \<notin> set (take k N)"
    using assms(1,3) by (rule nth_not_in_take)
  moreover have "map fst (take k (zip N [length v ..< length v + length N])) = take k N"
    using assms(3) by (simp add: take_zip take_map [symmetric] del: take_upt)
  ultimately have "map_of (take k (zip N [length v ..< length v + length N])) (N ! k) = None"
    by (metis map_of_eq_None_iff set_map)
  moreover have "map_of v (N ! k) = None"
    using assms(2,3) by simp
  ultimately show "map_of (take (length v + k) (v @ zip N [length v ..< length v + length N])) (N ! k) = None"
    by (simp add: map_add_def)
qed

text \<open>
  C4. Tokenization only grows the vocabulary. For every sentence and every vocabulary:
  a word that had an id keeps it; the old items stay as the prefix of the new dict; the
  item at each new position \<open>n\<close> carries the id \<open>n\<close>, the size of the dict just before
  that item was inserted, and its word was absent until then; the words inserted are exactly
  the words of the sentence that were absent.
\<close>

theorem tokenize_monotonic:
  "(\<forall>w i. map_of v w = Some i \<longrightarrow> map_of (snd (tokenize sentence v)) w = Some i) \<and>
   take (length v) (snd (tokenize sentence v)) = v \<and>
   (\<forall>n. length v \<le> n \<and> n < length (snd (tokenize sentence v)) \<longrightarrow>
      snd (snd (tokenize sentence v) ! n) = n \<and>
      map_of (take n (snd (tokenize sentence v))) (fst (snd (tokenize sentence v) ! n)) = None) \<and>
   fst ` set (drop (length v) (snd (tokenize sentence v))) =
      {w \<in> set (lower_split sentence). map_of v w = None}"
proof -
  define N where "N = new_words (lower_split sentence) v"
  have v': "snd (tokenize sentence v) = v @ zip N [length v ..< length v + length N]"
    by (simp add: tokenize_def N_def tokenize_words_vocab)
  have dN: "distinct N" and aN: "\<forall>w \<in> set N. map_of v w = None"
    by (simp_all add: N_def distinct_new_words set_new_words)
  have 1: "\<forall>w i. map_of v w = Some i \<longrightarrow> map_of (snd (tokenize sentence v)) w = Some i"
    by (simp add: tokenize_def tokenize_words_keeps)
  have 2: "take (length v) (snd (tokenize sentence v)) = v"
    by (simp add: v')
  have 3: "snd (snd (tokenize sentence v) ! n) = n \<and>
      map_of (take n (snd (tokenize sentence v))) (fst (snd (tokenize sentence v) ! n)) = None"
    if "length v \<le> n \<and> n < length (snd (tokenize sentence v))" for n
  proof -
    from that obtain k where k: "n = length v + k" "k < length N"
      by (auto simp: v' le_iff_add)
    from grown_entry [OF dN aN k(2)] show ?thesis
      by (simp add: v' k(1))
  qed
  have "map fst (zip N [length v ..< length v + length N]) = N"
    by simp
  then have "fst ` set (zip N [length v ..< length v + length N]) = set N"
    by (metis set_map)
  then have 4: "fst ` set (drop (length v) (snd (tokenize sentence v))) =
      {w \<in> set (lower_split sentence). map_of v w = None}"
    by (simp add: v' N_def set_new_words)
  from 1 2 3 4 show ?thesis by blast
qed

theorem tokenize_monotonic_witness:
  "map_of initial_vocab ''<EOS>'' = Some 1 \<and>
   tokenize ''Two plus  two PLUS four'' initial_vocab =
     ([3, 4, 3, 4, 5],
      [(''<SOS>'', 0), (''<EOS>'', 1), (''<PAD>'', 2), (''two'', 3), (''plus'', 4), (''four'', 5)]) \<and>
   map_of (snd (tokenize ''Two plus  two PLUS four'' initial_vocab)) ''<EOS>'' = Some 1 \<and>
   length initial_vocab \<le> 4 \<and> 4 < length (snd (tokenize ''Two plus  two PLUS four'' initial_vocab)) \<and>
   snd (snd (tokenize ''Two plus  two PLUS four'' initial_vocab) ! 4) = 4"
proof -
  have t: "tokenize ''Two plus  two PLUS four'' initial_vocab =
     ([3, 4, 3, 4, 5],
      [(''<SOS>'', 0), (''<EOS>'', 1), (''<PAD>'', 2), (''two'', 3), (''plus'', 4), (''four'', 5)])"
    by code_simp
  have e: "map_of initial_vocab ''<EOS>'' = Some 1"
    by code_simp
  from tokenize_monotonic [of initial_vocab "''Two plus  two PLUS four''"] e
  have "map_of (snd (tokenize ''Two plus  two PLUS four'' initial_vocab)) ''<EOS>'' = Some 1"
    by blast
  moreover have "length initial_vocab \<le> 4 \<and> 4 < length (snd (tokenize ''Two plus  two PLUS four'' initial_vocab))"
    by (simp add: t) (simp add: initial_vocab_def)
  moreover from this tokenize_monotonic [of initial_vocab "''Two plus  two PLUS four''"]
  have "snd (snd (tokenize ''Two plus  two PLUS four'' initial_vocab) ! 4) = 4"
    by blast
  ultimately show ?thesis using t e by blast
qed

theorem roundtrip_witness:
  "prepare_corpus [''two plus four''] [''equals six''] =
     Inr \<lparr>input_data = [[3, 4, 5]], target_data = [[0, 6, 7, 1]],
          word_to_index = [(''<SOS>'', 0), (''<EOS>'', 1), (''<PAD>'', 2), (''two'', 3),
            (''plus'', 4), (''four'', 5), (''equals'', 6), (''six'', 7)],
          index_to_word = [(0, ''<SOS>''), (1, ''<EOS>''), (2, ''<PAD>''), (3, ''two''),
            (4, ''plus''), (5, ''four''), (6, ''equals''), (7, ''six'')]\<rparr> \<and>
   getitem [(''<SOS>'', 0), (''<EOS>'', 1), (''<PAD>'', 2), (''two'', 3),
            (''plus'', 4), (''four'', 5), (''equals'', 6), (''six'', 7)] ''six'' = Inr (7::nat) \<and>
   getitem [(0, ''<SOS>''), (1, ''<EOS>''), (2, ''<PAD>''), (3, ''two''),
            (4, ''plus''), (5, ''four''), (6, ''equals''), (7, ''six'')] (7::nat) = Inr ''six''"
proof -
  let ?w = "[(''<SOS>'', 0::nat), (''<EOS>'', 1), (''<PAD>'', 2), (''two'', 3),
            (''plus'', 4), (''four'', 5), (''equals'', 6), (''six'', 7)]"
  let ?c = "\<lparr>input_data = [[3, 4, 5]], target_data = [[0, 6, 7, 1]],
          word_to_index = ?w,
          index_to_word = [(0, ''<SOS>''), (1, ''<EOS>''), (2, ''<PAD>''), (3, ''two''),
            (4, ''plus''), (5, ''four''), (6, ''equals''), (7, ''six'')]\<rparr>"
  have c: "prepare_corpus [''two plus four''] [''equals six''] = Inr ?c"
    by code_simp
  have g: "getitem (word_to_index ?c) ''six'' = Inr 7"
    by (simp add: getitem_def)
  from roundtrip [of "[''two plus four'']" "[''equals six'']"] c g
  have "getitem (index_to_word ?c) 7 = Inr ''six''"
    by blast
  with c g show ?thesis by simp
qed

section \<open>Properties of attention\<close>

lemma length_softmax: "length (softmax xs) = length xs"
  by (simp add: softmax_def)

lemma sum_exp_nonneg: "0 \<le> (\<Sum>y\<leftarrow>xs. exp (y::real))"
  by (rule sum_list_nonneg) auto

lemma sum_exp_pos: "xs \<noteq> [] \<Longrightarrow> 0 < (\<Sum>y\<leftarrow>xs. exp (y::real))"
proof (cases xs)
  case Nil
  assume "xs \<noteq> []"
  with Nil show ?thesis by simp
next
  case (Cons a as)
  have "0 < exp a + (\<Sum>y\<leftarrow>as. exp y)"
    using sum_exp_nonneg [of as] by (intro add_pos_nonneg) simp_all
  with Cons show ?thesis by simp
qed

lemma softmax_nonneg: "x \<in> set (softmax xs) \<Longrightarrow> 0 \<le> x"
  by (auto simp: softmax_def intro!: divide_nonneg_nonneg sum_list_nonneg)

lemma sum_list_div: "(\<Sum>x\<leftarrow>xs. f x / (c::real)) = (\<Sum>x\<leftarrow>xs. f x) / c"
  by (induction xs) (simp_all add: add_divide_distrib)

lemma sum_softmax: "xs \<noteq> [] \<Longrightarrow> sum_list (softmax xs) = 1"
  using sum_exp_pos [of xs] by (simp add: softmax_def sum_list_div)

lemma softmax_single: "softmax [x] = [1]"
  by (simp add: softmax_def)

lemma length_attention_scores: "length (attention_scores p h e) = length e"
  by (simp add: attention_scores_def)

text \<open>
  C3. For every decoder hidden state and every batch of non-empty encoder output sequences,
  each row that \<^verbatim>\<open>Attention.forward\<close> returns has one entry per encoder timestep, all its
  entries are non-negative, and they sum to 1 (exactly, over the reals).
\<close>

theorem attention_is_distribution:
  assumes "length hidden = length encoder_outputs"
    and "\<forall>e \<in> set encoder_outputs. e \<noteq> []"
  shows "length (Attention_forward p hidden encoder_outputs) = length encoder_outputs \<and>
    (\<forall>i < length encoder_outputs.
       length (Attention_forward p hidden encoder_outputs ! i) = length (encoder_outputs ! i) \<and>
       (\<forall>x \<in> set (Attention_forward p hidden encoder_outputs ! i). 0 \<le> x) \<and>
       sum_list (Attention_forward p hidden encoder_outputs ! i) = 1)"
proof (intro conjI allI impI)
  show "length (Attention_forward p hidden encoder_outputs) = length encoder_outputs"
    using assms(1) by (simp add: Attention_forward_def)
next
  fix i assume i: "i < length encoder_outputs"
  have row: "Attention_forward p hidden encoder_outputs ! i =
      softmax (attention_scores p (hidden ! i) (encoder_outputs ! i))"
    using i assms(1) by (simp add: Attention_forward_def)
  show "length (Attention_forward p hidden encoder_outputs ! i) = length (encoder_outputs ! i)"
    by (simp add: row length_softmax length_attention_scores)
  show "\<forall>x \<in> set (Attention_forward p hidden encoder_outputs ! i). 0 \<le> x"
    by (simp add: row softmax_nonneg)
  have "encoder_outputs ! i \<noteq> []"
    using i assms(2) by simp
  then have "attention_scores p (hidden ! i) (encoder_outputs ! i) \<noteq> []"
    by (simp add: attention_scores_def)
  then show "sum_list (Attention_forward p hidden encoder_outputs ! i) = 1"
    by (simp add: row sum_softmax)
qed

theorem attention_is_distribution_witness:
  "length [[1, 2 :: real]] = length [[[0, 1], [1, 0], [2, 2 :: real]]] \<and>
   list_all (\<lambda>e. e \<noteq> []) [[[0, 1], [1, 0], [2, 2 :: real]]] \<and>
   length (Attention_forward p0 [[1, 2]] [[[0, 1], [1, 0], [2, 2]]] ! 0) = 3 \<and>
   list_all (\<lambda>x. 0 \<le> x) (Attention_forward p0 [[1, 2]] [[[0, 1], [1, 0], [2, 2]]] ! 0) \<and>
   sum_list (Attention_forward p0 [[1, 2]] [[[0, 1], [1, 0], [2, 2]]] ! 0) = 1"
  using attention_is_distribution [of "[[1, 2]]" "[[[0, 1], [1, 0], [2, 2]]]" p0]
  by (simp add: list_all_iff)

text \<open>
  C9. When every encoder output sequence has length exactly 1, \<^verbatim>\<open>Attention.forward\<close>
  returns the singleton distribution \<open>[1]\<close> for every batch element, whatever the hidden
  state and the parameters are.
\<close>

theorem attention_single_timestep:
  assumes "length hidden = length encoder_outputs"
    and "\<forall>e \<in> set encoder_outputs. length e = 1"
  shows "Attention_forward p hidden encoder_outputs = replicate (length encoder_outputs) [1]"
proof (rule nth_equalityI)
  show "length (Attention_forward p hidden encoder_outputs) = length (replicate (length encoder_outputs) [1::real])"
    using assms(1) by (simp add: Attention_forward_def)
next
  fix i assume "i < length (Attention_forward p hidden encoder_outputs)"
  then have i: "i < length encoder_outputs"
    using assms(1) by (simp add: Attention_forward_def)
  then have "length (encoder_outputs ! i) = 1"
    using assms(2) by simp
  then obtain e where e: "encoder_outputs ! i = [e]"
    by (cases "encoder_outputs ! i") auto
  have "Attention_forward p hidden encoder_outputs ! i =
      softmax (attention_scores p (hidden ! i) (encoder_outputs ! i))"
    using i assms(1) by (simp add: Attention_forward_def)
  then show "Attention_forward p hidden encoder_outputs ! i = replicate (length encoder_outputs) [1] ! i"
    using i by (simp add: e attention_scores_def softmax_single)
qed

theorem attention_single_timestep_witness:
  "length [[1, 2 :: real], [0, 0]] = length [[[0, 1 :: real]], [[3, 4]]] \<and>
   list_all (\<lambda>e. length e = 1) [[[0, 1 :: real]], [[3, 4]]] \<and>
   Attention_forward p0 [[1, 2], [0, 0]] [[[0, 1]], [[3, 4]]] = [[1], [1]]"
  using attention_single_timestep [of "[[1, 2], [0, 0]]" "[[[0, 1]], [[3, 4]]]" p0]
  by (simp add: numeral_2_eq_2)

section \<open>Properties of the training loop\<close>

lemma right_padded_nth:
  assumes "right_padded pad row" "t < length row"
  shows "(row ! t \<noteq> pad) = (t < length (filter (\<lambda>y. y \<noteq> pad) row))"
proof -
  define body where "body = takeWhile (\<lambda>y. y \<noteq> pad) row"
  define padding where "padding = dropWhile (\<lambda>y. y \<noteq> pad) row"
  have row: "row = body @ padding"
    by (simp add: body_def padding_def)
  have allpad: "\<forall>y \<in> set padding. y = pad"
    using assms(1) unfolding right_padded_def list_all_iff padding_def by blast
  have nopad: "\<forall>y \<in> set body. y \<noteq> pad"
    by (auto simp: body_def dest: set_takeWhileD)
  have "filter (\<lambda>y. y \<noteq> pad) padding = []"
    unfolding filter_empty_conv using allpad by blast
  moreover have "filter (\<lambda>y. y \<noteq> pad) body = body"
    unfolding filter_id_conv using nopad by blast
  ultimately have len: "length (filter (\<lambda>y. y \<noteq> pad) row) = length body"
    by (simp add: row)
  show ?thesis
  proof (cases "t < length body")
    case True
    then have "row ! t \<in> set body"
      by (simp add: row nth_append)
    with nopad have "row ! t \<noteq> pad" by blast
    with True len show ?thesis by simp
  next
    case False
    then have "row ! t = padding ! (t - length body)"
      by (simp add: row nth_append)
    moreover have "t - length body < length padding"
      using False assms(2) by (simp add: row)
    ultimately have "row ! t \<in> set padding"
      by simp
    with allpad have "row ! t = pad" by blast
    with False len show ?thesis by simp
  qed
qed

lemma masked_sums:
  assumes "length os = length ys" "length ys = length as"
    and "\<forall>i < length ys. (ys ! i \<noteq> pad) = as ! i"
  shows "(\<Sum>(l, y)\<leftarrow>filter (\<lambda>(l, y). y \<noteq> pad) (zip os ys). ce l y) =
         (\<Sum>(l, y, a)\<leftarrow>zip os (zip ys as). if a then ce l y else 0) \<and>
         length (filter (\<lambda>(l, y). y \<noteq> pad) (zip os ys)) = length (filter id as)"
  using assms
proof (induction os ys as rule: list_induct3)
  case Nil
  then show ?case by simp
next
  case (Cons o' os y ys a as)
  from Cons.prems have hd: "(y \<noteq> pad) = a" by auto
  from Cons.prems have "\<forall>i < length ys. (ys ! i \<noteq> pad) = as ! i" by auto
  with Cons.IH hd show ?case by auto
qed

lemma fold_max_mem: "fold max rest (x::nat) \<in> set (x # rest)"
  by (induction rest arbitrary: x) (auto simp: max_def)

lemma some_active:
  assumes "tensor_max lens = Inr m" "t < m"
  shows "list_ex id (still_active t lens)"
proof -
  from assms(1) obtain x rest where l: "lens = x # rest" and m: "m = fold max rest x"
    by (auto simp: tensor_max_def split: list.splits)
  have "m \<in> set lens" unfolding l m by (rule fold_max_mem)
  with assms(2) show ?thesis
    by (auto simp: still_active_def list_ex_iff)
qed

lemma broadcast_sum: "(\<Sum>a\<leftarrow>as. c * (if a then 1 else 0)) = (c::real) * real (length (filter id as))"
  by (induction as) (simp_all add: algebra_simps)

lemma max_length_le_width:
  assumes "tensor_max (target_lengths pad target_seq) = Inr m"
    and "\<forall>row \<in> set target_seq. length row = T"
  shows "m \<le> T"
proof -
  from assms(1) obtain x rest where l: "target_lengths pad target_seq = x # rest"
    and m: "m = fold max rest x"
    by (auto simp: tensor_max_def split: list.splits)
  have "m \<in> set (target_lengths pad target_seq)"
    unfolding l m by (rule fold_max_mem)
  then obtain row where "row \<in> set target_seq" "m = length (filter (\<lambda>y. y \<noteq> pad) row)"
    by (auto simp: target_lengths_def)
  with assms(2) show ?thesis
    by (metis length_filter_le)
qed

lemma active_iff_not_pad:
  assumes "\<forall>row \<in> set target_seq. length row = T"
    and "\<forall>row \<in> set target_seq. right_padded pad row"
    and "t < T" "i < length target_seq"
  shows "(column t target_seq ! i \<noteq> pad) = still_active t (target_lengths pad target_seq) ! i"
proof -
  have r: "target_seq ! i \<in> set target_seq"
    using assms(4) by simp
  with assms(1,3) have "t < length (target_seq ! i)" by simp
  moreover from r assms(2) have "right_padded pad (target_seq ! i)" by blast
  ultimately have "(target_seq ! i ! t \<noteq> pad) = (t < length (filter (\<lambda>y. y \<noteq> pad) (target_seq ! i)))"
    by (rule right_padded_nth [rotated])
  then show ?thesis
    using assms(4) by (simp add: column_def still_active_def target_lengths_def)
qed

lemma step_loss_eq:
  assumes rect: "\<forall>row \<in> set target_seq. length row = T"
    and rp: "\<forall>row \<in> set target_seq. right_padded pad row"
    and m: "tensor_max (target_lengths pad target_seq) = Inr m"
    and t: "t < m"
    and out: "length output = length target_seq"
  shows "masked_step_loss ce pad output (column t target_seq)
           (still_active t (target_lengths pad target_seq)) =
         Some (spec_masked_mean ce output (column t target_seq)
           (still_active t (target_lengths pad target_seq)))"
proof -
  let ?col = "column t target_seq"
  let ?act = "still_active t (target_lengths pad target_seq)"
  let ?kept = "filter (\<lambda>(l, y). y \<noteq> pad) (zip output ?col)"
  have tT: "t < T"
    using max_length_le_width [OF m rect] t by simp
  have l1: "length output = length ?col" and l2: "length ?col = length ?act"
    using out by (simp_all add: column_def still_active_def target_lengths_def)
  have "\<forall>i < length ?col. (?col ! i \<noteq> pad) = ?act ! i"
    using active_iff_not_pad [OF rect rp tT] by (simp add: column_def)
  from masked_sums [OF l1 l2 this, of ce]
  have s: "(\<Sum>(l, y)\<leftarrow>?kept. ce l y) = (\<Sum>(l, y, a)\<leftarrow>zip output (zip ?col ?act). if a then ce l y else 0)"
    and n: "length ?kept = length (filter id ?act)"
    by simp_all
  have "list_ex id ?act"
    using m t by (rule some_active)
  then have pos: "0 < length (filter id ?act)"
    by (auto simp: list_ex_iff filter_empty_conv)
  then have kept: "?kept \<noteq> []"
    using n by auto
  define mean where "mean = spec_masked_mean ce output ?col ?act"
  have c: "criterion ce pad output ?col = Some mean"
    using kept by (simp add: criterion_def Let_def s n mean_def spec_masked_mean_def)
  have "masked_step_loss ce pad output ?col ?act =
      Some ((\<Sum>a\<leftarrow>?act. mean * (if a then 1 else 0)) / real (length (filter id ?act)))"
    using pos by (simp add: masked_step_loss_def c)
  also have "\<dots> = Some mean"
    using pos by (simp add: broadcast_sum)
  finally show ?thesis
    by (simp add: mean_def)
qed

lemma loop_append:
  "\<forall>x \<in> set xs. list_ex id (still_active x lens) \<Longrightarrow>
   timestep_loop decoder ce pad target_seq lens enc (xs @ ys) st =
   timestep_loop decoder ce pad target_seq lens enc ys
     (timestep_loop decoder ce pad target_seq lens enc xs st)"
  by (induction xs arbitrary: st) (auto split: prod.splits)

lemma all_active:
  "tensor_max lens = Inr m \<Longrightarrow> t \<le> m \<Longrightarrow> \<forall>x \<in> set [0 ..< t]. list_ex id (still_active x lens)"
  by (auto intro: some_active)

lemma loop_trajectory:
  assumes m: "tensor_max lens = Inr m" and t: "t \<le> m"
    and s0: "s0 = (decoder_input st0, decoder_hidden st0, decoder_cell st0)"
    and st: "st = timestep_loop decoder ce pad target_seq lens enc [0 ..< t] st0"
  shows "(decoder_input st, decoder_hidden st, decoder_cell st) =
           teacher_forced decoder enc target_seq s0 t \<and>
         loss st = fold (\<lambda>k acc. nan_add acc
             (masked_step_loss ce pad (teacher_forced_output decoder enc target_seq s0 k)
                (column k target_seq) (still_active k lens))) [0 ..< t] (loss st0)"
  using t unfolding st
proof (induction t)
  case 0
  then show ?case by (simp add: s0)
next
  case (Suc t)
  let ?st = "timestep_loop decoder ce pad target_seq lens enc [0 ..< t] st0"
  from Suc.prems have tm: "t < m" by simp
  have act: "list_ex id (still_active t lens)"
    using m tm by (rule some_active)
  have pre: "\<forall>x \<in> set [0 ..< t]. list_ex id (still_active x lens)"
    using all_active [OF m, of t] tm by simp
  have IH: "(decoder_input ?st, decoder_hidden ?st, decoder_cell ?st) =
           teacher_forced decoder enc target_seq s0 t"
    "loss ?st = fold (\<lambda>k acc. nan_add acc
             (masked_step_loss ce pad (teacher_forced_output decoder enc target_seq s0 k)
                (column k target_seq) (still_active k lens))) [0 ..< t] (loss st0)"
    using Suc.IH tm by simp_all
  have "timestep_loop decoder ce pad target_seq lens enc [0 ..< Suc t] st0 =
        timestep_loop decoder ce pad target_seq lens enc [t] ?st"
    using loop_append [OF pre, of decoder ce pad target_seq enc "[t]" st0] by simp
  then show ?case
    using act IH
    by (auto simp: teacher_forced_output_def split: prod.splits)
qed

lemma fold_nan_add:
  "fold (\<lambda>k acc. nan_add acc (Some (f k))) xs (Some a) = Some (a + (\<Sum>k\<leftarrow>xs. f k))"
  by (induction xs arbitrary: a) (simp_all add: nan_add_def add.assoc)

lemma teacher_forced_input_length:
  "length (fst s0) = length target_seq \<Longrightarrow>
   length (fst (teacher_forced decoder enc target_seq s0 t)) = length target_seq"
  by (cases t) (auto simp: column_def split: prod.splits)

lemma fold_max_start: "(a::nat) \<le> fold max xs a"
proof (induction xs arbitrary: a)
  case Nil
  then show ?case by simp
next
  case (Cons x xs)
  have "max x a \<le> fold max xs (max x a)" by (rule Cons.IH)
  then show ?case by simp
qed

lemma fold_max_upper: "x \<in> set xs \<Longrightarrow> (x::nat) \<le> fold max xs a"
proof (induction xs arbitrary: a)
  case Nil
  then show ?case by simp
next
  case (Cons y ys)
  show ?case
  proof (cases "x = y")
    case True
    have "max y a \<le> fold max ys (max y a)" by (rule fold_max_start)
    with True show ?thesis by simp
  next
    case False
    with Cons.prems have "x \<in> set ys" by simp
    then have "x \<le> fold max ys (max y a)" by (rule Cons.IH)
    then show ?thesis by simp
  qed
qed

lemma right_padded_append:
  assumes "pad \<notin> set s"
  shows "right_padded pad (s @ replicate k pad)"
proof -
  have "dropWhile (\<lambda>y. y \<noteq> pad) (s @ replicate k pad) =
      dropWhile (\<lambda>y. y \<noteq> pad) (replicate k pad)"
    using assms by (intro dropWhile_append2) blast
  also have "\<dots> = replicate k pad"
    by (cases k) simp_all
  finally show ?thesis
    by (simp add: right_padded_def list_all_iff)
qed

lemma pad_sequence_shape:
  assumes "\<forall>s \<in> set sequences. pad \<notin> set s" and "row \<in> set (pad_sequence pad sequences)"
  shows "length row = fold max (map length sequences) 0 \<and> right_padded pad row"
proof -
  from assms(2) obtain s where s: "s \<in> set sequences"
    and row: "row = s @ replicate (fold max (map length sequences) 0 - length s) pad"
    by (auto simp: pad_sequence_def Let_def)
  from s have "length s \<le> fold max (map length sequences) 0"
    by (intro fold_max_upper) simp
  then have "length row = fold max (map length sequences) 0"
    by (simp add: row)
  moreover from s assms(1) have "pad \<notin> set s" by blast
  then have "right_padded pad row"
    unfolding row by (rule right_padded_append)
  ultimately show ?thesis by blast
qed

text \<open>
  C1. The masked loss of the timestep loop. A batch is a list of target rows of one common
  width, each padded at its end with the pad id, as \<^verbatim>\<open>pad_sequence\<close> builds it
  (\<open>pad_sequence_shape\<close>). For every such batch and every decoder that returns one row of
  logits per input token: \<^verbatim>\<open>train\<close> runs the timestep loop to the end; at every timestep
  \<open>t\<close> below the maximum target length the term added to the loss is the mean, over the
  examples still active at \<open>t\<close>, of the per-example loss against the ground-truth token at
  \<open>t\<close>, the inactive examples contributing zero; and the batch loss is the sum of these
  masked means along the teacher-forced run of the decoder.
\<close>

theorem masked_loss_right_padded:
  assumes sos: "getitem w2i START_OF_SEQUENCE = Inr sos"
    and pad: "getitem w2i PADDING_SEQUENCE = Inr pad"
    and enc: "encoder input_seq = (enc, hidden, cell)"
    and ne: "target_seq \<noteq> []"
    and batch: "length input_seq = length target_seq"
    and rect: "\<forall>row \<in> set target_seq. length row = T"
    and rp: "\<forall>row \<in> set target_seq. right_padded pad row"
    and dec: "\<forall>inp h c e. length (fst (decoder inp h c e)) = length inp"
  shows "\<exists>st m. train_batch encoder decoder ce w2i input_seq target_seq = Inr st \<and>
      tensor_max (target_lengths pad target_seq) = Inr m \<and>
      (\<forall>t < m. \<forall>output. length output = length target_seq \<longrightarrow>
         masked_step_loss ce pad output (column t target_seq)
             (still_active t (target_lengths pad target_seq)) =
           Some (spec_masked_mean ce output (column t target_seq)
             (still_active t (target_lengths pad target_seq)))) \<and>
      loss st = Some (\<Sum>t\<leftarrow>[0 ..< m]. spec_masked_mean ce
          (teacher_forced_output decoder enc target_seq
             (replicate (length input_seq) sos, hidden, cell) t)
          (column t target_seq) (still_active t (target_lengths pad target_seq)))"
proof -
  let ?lens = "target_lengths pad target_seq"
  let ?s0 = "(replicate (length input_seq) sos, hidden, cell)"
  let ?st0 = "\<lparr>loss = Some 0, decoder_input = replicate (length input_seq) sos,
      decoder_hidden = hidden, decoder_cell = cell, attention_weights = None\<rparr>"
  from ne obtain m where m: "tensor_max ?lens = Inr m"
    by (cases target_seq) (simp_all add: tensor_max_def target_lengths_def)
  define st where "st = timestep_loop decoder ce pad target_seq ?lens enc [0 ..< m] ?st0"
  have tb: "train_batch encoder decoder ce w2i input_seq target_seq = Inr st"
    by (simp add: train_batch_def enc sos pad m st_def)
  have step: "masked_step_loss ce pad out (column t target_seq) (still_active t ?lens) =
      Some (spec_masked_mean ce out (column t target_seq) (still_active t ?lens))"
    if "t < m" "length out = length target_seq" for t out
    using rect rp m that by (rule step_loss_eq)
  have outlen: "length (teacher_forced_output decoder enc target_seq ?s0 t) = length target_seq" for t
  proof -
    have "length (fst (teacher_forced decoder enc target_seq ?s0 t)) = length target_seq"
      by (rule teacher_forced_input_length) (simp add: batch)
    moreover obtain inp h c where s: "teacher_forced decoder enc target_seq ?s0 t = (inp, h, c)"
      by (cases "teacher_forced decoder enc target_seq ?s0 t")
    ultimately show ?thesis
      using dec by (simp add: teacher_forced_output_def)
  qed
  have "loss st = fold (\<lambda>k acc. nan_add acc
             (masked_step_loss ce pad (teacher_forced_output decoder enc target_seq ?s0 k)
                (column k target_seq) (still_active k ?lens))) [0 ..< m] (Some 0)"
    using loop_trajectory [OF m order_refl, where ?s0.0 = ?s0 and ?st0.0 = ?st0 and st = st
        and decoder = decoder and ce = ce and pad = pad and target_seq = target_seq and enc = enc]
    by (simp add: st_def)
  also have "\<dots> = fold (\<lambda>k acc. nan_add acc
             (Some (spec_masked_mean ce (teacher_forced_output decoder enc target_seq ?s0 k)
                (column k target_seq) (still_active k ?lens)))) [0 ..< m] (Some 0)"
    by (rule fold_cong) (simp_all add: step outlen)
  also have "\<dots> = Some (\<Sum>t\<leftarrow>[0 ..< m]. spec_masked_mean ce
          (teacher_forced_output decoder enc target_seq ?s0 t)
          (column t target_seq) (still_active t ?lens))"
    by (simp add: fold_nan_add)
  finally have total: "loss st = Some (\<Sum>t\<leftarrow>[0 ..< m]. spec_masked_mean ce
          (teacher_forced_output decoder enc target_seq ?s0 t)
          (column t target_seq) (still_active t ?lens))" .
  from tb m step total show ?thesis by blast
qed

theorem masked_loss_right_padded_witness:
  "getitem initial_vocab START_OF_SEQUENCE = Inr 0 \<and>
   getitem initial_vocab PADDING_SEQUENCE = Inr 2 \<and>
   example_encoder [[3, 4], [3, 2]] = ((), (), ()) \<and>
   [[0, 3, 1], [0, 1, 2 :: nat]] \<noteq> [] \<and>
   length [[3, 4], [3, 2 :: nat]] = length [[0, 3, 1], [0, 1, 2 :: nat]] \<and>
   list_all (\<lambda>row. length row = 3) [[0, 3, 1], [0, 1, 2 :: nat]] \<and>
   list_all (right_padded 2) [[0, 3, 1], [0, 1, 2]] \<and>
   (\<forall>inp h c e. length (fst (example_decoder inp h c e)) = length inp) \<and>
   (\<exists>st. train_batch example_encoder example_decoder cross_entropy initial_vocab
            [[3, 4], [3, 2]] [[0, 3, 1], [0, 1, 2]] = Inr st \<and>
      tensor_max (target_lengths 2 [[0, 3, 1], [0, 1, 2]]) = Inr 3 \<and>
      loss st = Some (\<Sum>t\<leftarrow>[0 ..< 3]. spec_masked_mean cross_entropy
          (teacher_forced_output example_decoder () [[0, 3, 1], [0, 1, 2]]
             (replicate (length [[3, 4], [3, 2 :: nat]]) 0, (), ()) t)
          (column t [[0, 3, 1], [0, 1, 2]])
          (still_active t (target_lengths 2 [[0, 3, 1], [0, 1, 2]]))))"
proof -
  have h1: "getitem initial_vocab START_OF_SEQUENCE = Inr 0"
    and h2: "getitem initial_vocab PADDING_SEQUENCE = Inr 2"
    by (simp_all add: getitem_def initial_vocab_def START_OF_SEQUENCE_def
        END_OF_SEQUENCE_def PADDING_SEQUENCE_def)
  have h3: "example_encoder [[3, 4], [3, 2]] = ((), (), ())"
    by (simp add: example_encoder_def)
  have h4: "[[0, 3, 1], [0, 1, 2 :: nat]] \<noteq> []"
    and h5: "length [[3, 4], [3, 2 :: nat]] = length [[0, 3, 1], [0, 1, 2 :: nat]]"
    and h6: "\<forall>row \<in> set [[0, 3, 1], [0, 1, 2 :: nat]]. length row = 3"
    by simp_all
  have h7: "\<forall>row \<in> set [[0, 3, 1], [0, 1, 2]]. right_padded 2 row"
    by (simp add: right_padded_def)
  have h8: "\<forall>inp h c e. length (fst (example_decoder inp h c e)) = length inp"
    by (simp add: example_decoder_def)
  have m: "tensor_max (target_lengths 2 [[0, 3, 1], [0, 1, 2]]) = Inr 3"
    by (simp add: tensor_max_def target_lengths_def)
  from masked_loss_right_padded [where encoder = example_encoder and decoder = example_decoder
      and ce = cross_entropy and ?w2i.0 = initial_vocab and input_seq = "[[3, 4], [3, 2]]"
      and target_seq = "[[0, 3, 1], [0, 1, 2]]" and sos = 0 and pad = 2 and enc = "()"
      and hidden = "()" and cell = "()" and T = 3, OF h1 h2 h3 h4 h5 h6 h7 h8] m
  have "\<exists>st. train_batch example_encoder example_decoder cross_entropy initial_vocab
            [[3, 4], [3, 2]] [[0, 3, 1], [0, 1, 2]] = Inr st \<and>
      tensor_max (target_lengths 2 [[0, 3, 1], [0, 1, 2]]) = Inr 3 \<and>
      loss st = Some (\<Sum>t\<leftarrow>[0 ..< 3]. spec_masked_mean cross_entropy
          (teacher_forced_output example_decoder () [[0, 3, 1], [0, 1, 2]]
             (replicate (length [[3, 4], [3, 2 :: nat]]) 0, (), ()) t)
          (column t [[0, 3, 1], [0, 1, 2]])
          (still_active t (target_lengths 2 [[0, 3, 1], [0, 1, 2]])))"
    by auto
  with h1 h2 h3 h4 h5 h6 h7 h8 show ?thesis
    unfolding list_all_iff by blast
qed

text \<open>
  C6. Teacher forcing. For every decoder, every batch and every timestep \<open>t\<close> below the maximum
  target length: the loop over all timesteps is the loop over the timesteps after \<open>t\<close>
  started in the state that the timesteps up to \<open>t\<close> leave, and in that state the decoder
  input, which the decoder receives at timestep \<open>t + 1\<close>, is the ground-truth column
  \<^verbatim>\<open>target_seq[:, t]\<close>. Nothing the decoder returns enters it.
\<close>

theorem teacher_forcing:
  assumes m: "tensor_max lens = Inr m" and t: "t < m"
  shows "timestep_loop decoder ce pad target_seq lens enc [0 ..< m] st0 =
           timestep_loop decoder ce pad target_seq lens enc [Suc t ..< m]
             (timestep_loop decoder ce pad target_seq lens enc [0 ..< Suc t] st0) \<and>
         decoder_input (timestep_loop decoder ce pad target_seq lens enc [0 ..< Suc t] st0) =
           column t target_seq"
proof
  have "[0 ..< m] = [0 ..< Suc t] @ [Suc t ..< m]"
    using t by (metis Suc_leI le0 upt_add_eq_append le_add_diff_inverse)
  moreover have "\<forall>x \<in> set [0 ..< Suc t]. list_ex id (still_active x lens)"
    using all_active [OF m, of "Suc t"] t by simp
  ultimately show "timestep_loop decoder ce pad target_seq lens enc [0 ..< m] st0 =
           timestep_loop decoder ce pad target_seq lens enc [Suc t ..< m]
             (timestep_loop decoder ce pad target_seq lens enc [0 ..< Suc t] st0)"
    by (simp only: loop_append)
next
  from t have "Suc t \<le> m" by simp
  from loop_trajectory [OF m this refl refl, where decoder = decoder and enc = enc
      and target_seq = target_seq and ?st0.0 = st0 and ce = ce and pad = pad]
  have "decoder_input (timestep_loop decoder ce pad target_seq lens enc [0 ..< Suc t] st0) =
      fst (teacher_forced decoder enc target_seq
        (decoder_input st0, decoder_hidden st0, decoder_cell st0) (Suc t))"
    by (metis fst_conv)
  then show "decoder_input (timestep_loop decoder ce pad target_seq lens enc [0 ..< Suc t] st0) =
      column t target_seq"
    by (simp split: prod.splits)
qed

theorem teacher_forcing_witness:
  "tensor_max (target_lengths 2 [[0, 3, 1], [0, 1, 2]]) = Inr 3 \<and> (1::nat) < 3 \<and>
   decoder_input (timestep_loop example_decoder cross_entropy 2 [[0, 3, 1], [0, 1, 2]]
      (target_lengths 2 [[0, 3, 1], [0, 1, 2]]) () [0 ..< Suc 1]
      \<lparr>loss = Some 0, decoder_input = [0, 0], decoder_hidden = (), decoder_cell = (),
       attention_weights = None\<rparr>) = [3, 1]"
proof -
  have m: "tensor_max (target_lengths 2 [[0, 3, 1], [0, 1, 2]]) = Inr 3"
    by (simp add: tensor_max_def target_lengths_def)
  have t: "(1::nat) < 3" by simp
  have c: "column 1 [[0, 3, 1], [0, 1, 2]] = [3, 1]"
    by (simp add: column_def)
  from teacher_forcing [OF m t, of example_decoder cross_entropy 2 "[[0, 3, 1], [0, 1, 2]]" "()"
      "\<lparr>loss = Some 0, decoder_input = [0, 0], decoder_hidden = (), decoder_cell = (),
       attention_weights = None\<rparr>"]
  show ?thesis using m c by simp
qed

section \<open>Properties of greedy decoding\<close>

lemma argmax_from_bound:
  "best < i \<Longrightarrow> argmax_from best bv i xs < i + length xs"
proof (induction xs arbitrary: best bv i)
  case Nil
  then show ?case by simp
next
  case (Cons x xs)
  have "argmax_from i x (Suc i) xs < Suc i + length xs"
    by (rule Cons.IH) simp
  moreover have "argmax_from best bv (Suc i) xs < Suc i + length xs"
    using Cons.prems by (intro Cons.IH) simp
  ultimately show ?case by simp
qed

lemma argmax_less: "row \<noteq> [] \<Longrightarrow> argmax row < length row"
  using argmax_from_bound [of 0 1] by (cases row) (auto simp: argmax_def)

lemma lookup_all_length: "lookup_all d ks = Inr vs \<Longrightarrow> length vs = length ks"
  by (induction ks arbitrary: vs) (auto split: sum.splits)

lemma lookup_all_total:
  "\<forall>k \<in> set ks. map_of d k \<noteq> None \<Longrightarrow> \<exists>vs. lookup_all d ks = Inr vs"
  by (induction ks) (auto simp: getitem_def split: sum.splits option.splits)

lemma greedy_loop_result:
  "greedy_loop decoder w2i enc n s out atts k = Inr (ids, atts', steps) \<Longrightarrow>
   \<exists>new_ids new_atts. ids = out @ new_ids \<and> atts' = atts @ new_atts \<and>
     length new_atts = length new_ids \<and>
     ((length new_ids = n \<and> steps = k + n) \<or>
      (length new_ids < n \<and> steps = Suc (k + length new_ids))) \<and>
     (\<forall>eos. getitem w2i END_OF_SEQUENCE = Inr eos \<longrightarrow> eos \<notin> set new_ids)"
proof (induction n arbitrary: s out atts k)
  case 0
  then show ?case by simp
next
  case (Suc n)
  obtain inp h c where s: "s = (inp, h, c)" by (cases s)
  obtain outp h' c' a where d: "decoder inp h c enc = (outp, h', c', a)"
    by (cases "decoder inp h c enc")
  from Suc.prems s d obtain tok where tok: "predicted_token outp = Inr tok"
    by (auto split: sum.splits)
  from Suc.prems s d tok obtain eos where eos: "getitem w2i END_OF_SEQUENCE = Inr eos"
    by (auto split: sum.splits)
  show ?case
  proof (cases "tok = eos")
    case True
    with Suc.prems s d tok eos have "ids = out" "atts' = atts" "steps = Suc k"
      by simp_all
    then show ?thesis by simp
  next
    case False
    with Suc.prems s d tok eos
    have "greedy_loop decoder w2i enc n ([tok], h', c') (out @ [tok]) (atts @ [a]) (Suc k) =
        Inr (ids, atts', steps)"
      by simp
    from Suc.IH [OF this] obtain new_ids new_atts where
      r: "ids = (out @ [tok]) @ new_ids" "atts' = (atts @ [a]) @ new_atts"
        "length new_atts = length new_ids"
        "(length new_ids = n \<and> steps = Suc k + n) \<or>
         (length new_ids < n \<and> steps = Suc (Suc k + length new_ids))"
        "\<forall>eos. getitem w2i END_OF_SEQUENCE = Inr eos \<longrightarrow> eos \<notin> set new_ids"
      by blast
    have "ids = out @ (tok # new_ids)" "atts' = atts @ (a # new_atts)"
      using r(1,2) by simp_all
    moreover have "length (a # new_atts) = length (tok # new_ids)"
      using r(3) by simp
    moreover have "(length (tok # new_ids) = Suc n \<and> steps = k + Suc n) \<or>
         (length (tok # new_ids) < Suc n \<and> steps = Suc (k + length (tok # new_ids)))"
      using r(4) by auto
    moreover have "\<forall>e. getitem w2i END_OF_SEQUENCE = Inr e \<longrightarrow> e \<notin> set (tok # new_ids)"
      using r(5) False eos by auto
    ultimately show ?thesis by blast
  qed
qed

lemma greedy_loop_total:
  assumes shape: "\<forall>tok h c e. \<exists>row. fst (decoder [tok] h c e) = [row] \<and> length row = V"
    and V: "0 < V"
    and eos: "getitem w2i END_OF_SEQUENCE = Inr eos"
    and out: "\<forall>i \<in> set out. i < V"
  shows "\<exists>ids atts' steps.
           greedy_loop decoder w2i enc n ([tok], h, c) out atts k = Inr (ids, atts', steps) \<and>
           (\<forall>i \<in> set ids. i < V)"
  using out
proof (induction n arbitrary: tok h c out atts k)
  case 0
  then show ?case by simp
next
  case (Suc n)
  define inp where "inp = [tok]"
  define s where "s = (inp, h, c)"
  obtain outp h' c' a where d: "decoder inp h c enc = (outp, h', c', a)"
    by (cases "decoder inp h c enc")
  from shape obtain row where "fst (decoder inp h c enc) = [row] \<and> length row = V"
    unfolding inp_def by blast
  with d V have row: "outp = [row]" "length row = V" "row \<noteq> []"
    by auto
  then have tok: "predicted_token outp = Inr (argmax row)" "argmax row < V"
    using argmax_less [of row] by (simp_all add: predicted_token_def)
  show ?case
  proof (cases "argmax row = eos")
    case True
    then show ?thesis
      using d tok eos Suc.prems by (simp add: inp_def)
  next
    case False
    have "\<forall>i \<in> set (out @ [argmax row]). i < V"
      using Suc.prems tok(2) by simp
    from Suc.IH [OF this, of "argmax row" h' c' "atts @ [a]" "Suc k"]
    show ?thesis
      using d tok eos False by (simp add: inp_def)
  qed
qed

lemma greedy_decode_result:
  assumes "greedy_decode encoder decoder input_sentence w2i n = Inr (input_tokens, ids, atts, steps)"
  shows "steps \<le> n \<and> length ids \<le> steps \<and> length atts = length ids \<and>
         (\<forall>eos. getitem w2i END_OF_SEQUENCE = Inr eos \<longrightarrow> eos \<notin> set ids)"
proof -
  from assms obtain enc hidden cell sos where
    l: "greedy_loop decoder w2i enc n ([sos], hidden, cell) [] [] 0 = Inr (ids, atts, steps)"
    by (auto simp: greedy_decode_def split: sum.splits prod.splits)
  from greedy_loop_result [OF l] show ?thesis by auto
qed

lemma greedy_loop_stops:
  assumes "greedy_loop decoder w2i enc n s out atts k = Inr (ids, atts', steps)"
    and "getitem w2i END_OF_SEQUENCE = Inr eos"
  shows "ids = out @ takeWhile (\<lambda>tok. tok \<noteq> eos) (greedy_predictions decoder enc n s) \<and>
     (length (takeWhile (\<lambda>tok. tok \<noteq> eos) (greedy_predictions decoder enc n s)) < n \<longrightarrow>
        length (takeWhile (\<lambda>tok. tok \<noteq> eos) (greedy_predictions decoder enc n s)) <
          length (greedy_predictions decoder enc n s) \<and>
        greedy_predictions decoder enc n s !
          length (takeWhile (\<lambda>tok. tok \<noteq> eos) (greedy_predictions decoder enc n s)) = eos)"
  using assms(1)
proof (induction n arbitrary: s out atts k)
  case 0
  then show ?case by simp
next
  case (Suc n)
  obtain inp h c where s: "s = (inp, h, c)" by (cases s)
  obtain outp h' c' a where d: "decoder inp h c enc = (outp, h', c', a)"
    by (cases "decoder inp h c enc")
  from Suc.prems s d obtain tok where tok: "predicted_token outp = Inr tok"
    by (auto split: sum.splits)
  define rest where "rest = greedy_predictions decoder enc n ([tok], h', c')"
  have preds: "greedy_predictions decoder enc (Suc n) s = tok # rest"
    by (simp add: s d tok rest_def)
  show ?case
  proof (cases "tok = eos")
    case True
    with Suc.prems s d tok assms(2) have "ids = out"
      by simp
    with True show ?thesis
      unfolding preds by simp
  next
    case False
    with Suc.prems s d tok assms(2)
    have "greedy_loop decoder w2i enc n ([tok], h', c') (out @ [tok]) (atts @ [a]) (Suc k) =
        Inr (ids, atts', steps)"
      by simp
    from Suc.IH [OF this]
    have "ids = (out @ [tok]) @ takeWhile (\<lambda>tok. tok \<noteq> eos) rest"
      and "length (takeWhile (\<lambda>tok. tok \<noteq> eos) rest) < n \<longrightarrow>
        length (takeWhile (\<lambda>tok. tok \<noteq> eos) rest) < length rest \<and>
        rest ! length (takeWhile (\<lambda>tok. tok \<noteq> eos) rest) = eos"
      unfolding rest_def by blast+
    with False show ?thesis
      unfolding preds by simp
  qed
qed

lemma greedy_decode_stops:
  assumes "greedy_decode encoder decoder input_sentence w2i n = Inr (input_tokens, ids, atts, steps)"
  shows "\<exists>enc hidden cell sos.
     lookup_all w2i (py_split input_sentence) = Inr input_tokens \<and>
     encoder [input_tokens] = (enc, hidden, cell) \<and>
     getitem w2i START_OF_SEQUENCE = Inr sos \<and>
     ((length ids = n \<and> steps = n) \<or> (length ids < n \<and> steps = Suc (length ids))) \<and>
     (\<forall>eos. getitem w2i END_OF_SEQUENCE = Inr eos \<longrightarrow>
        ids = takeWhile (\<lambda>tok. tok \<noteq> eos)
                (greedy_predictions decoder enc n ([sos], hidden, cell)) \<and>
        (length ids < n \<longrightarrow>
           length ids < length (greedy_predictions decoder enc n ([sos], hidden, cell)) \<and>
           greedy_predictions decoder enc n ([sos], hidden, cell) ! length ids = eos))"
proof -
  from assms obtain enc hidden cell sos where
    t: "lookup_all w2i (py_split input_sentence) = Inr input_tokens"
    and e: "encoder [input_tokens] = (enc, hidden, cell)"
    and s: "getitem w2i START_OF_SEQUENCE = Inr sos"
    and l: "greedy_loop decoder w2i enc n ([sos], hidden, cell) [] [] 0 = Inr (ids, atts, steps)"
    by (auto simp: greedy_decode_def split: sum.splits prod.splits)
  from greedy_loop_result [OF l]
  have count: "(length ids = n \<and> steps = n) \<or> (length ids < n \<and> steps = Suc (length ids))"
    by auto
  have stop: "ids = takeWhile (\<lambda>tok. tok \<noteq> eos)
                (greedy_predictions decoder enc n ([sos], hidden, cell)) \<and>
        (length ids < n \<longrightarrow>
           length ids < length (greedy_predictions decoder enc n ([sos], hidden, cell)) \<and>
           greedy_predictions decoder enc n ([sos], hidden, cell) ! length ids = eos)"
    if "getitem w2i END_OF_SEQUENCE = Inr eos" for eos
    using greedy_loop_stops [OF l that] by simp
  from t e s count stop show ?thesis by blast
qed

text \<open>
  C2. Greedy decoding. Whenever \<^verbatim>\<open>generate_predictions\<close> or \<^verbatim>\<open>test\<close> returns a
  sentence, the loop has called the decoder at most \<^verbatim>\<open>max_target_length\<close> times, and the
  token sequence behind the returned words does not contain the end-token id: it is the
  run of greedy predictions up to, and without, the first end token. Decoding stops as
  soon as the prediction is the end token: either all \<^verbatim>\<open>max_target_length\<close> steps were
  used and each gave a token, or the decoder was called exactly once more than there are
  tokens and that last call predicted the end token. And \<^verbatim>\<open>generate_predictions\<close> does
  return: for every input sentence whose words are all in the vocabulary, every
  \<^verbatim>\<open>max_target_length\<close>, a vocabulary with the start and end tokens, a decoder that returns
  one row of \<open>V > 0\<close> logits for one input token, and an \<^verbatim>\<open>index_to_word\<close> defined on all
  \<open>V\<close> ids.
\<close>

theorem greedy_decoding_bounded:
  "(\<forall>ws. generate_predictions encoder decoder input_sentence w2i i2w max_target_length = Inr ws \<or>
         test encoder decoder input_sentence w2i i2w max_target_length = Inr ws \<longrightarrow>
      (\<exists>input_tokens ids atts steps enc hidden cell sos.
         lookup_all w2i (py_split input_sentence) = Inr input_tokens \<and>
         encoder [input_tokens] = (enc, hidden, cell) \<and>
         getitem w2i START_OF_SEQUENCE = Inr sos \<and>
         greedy_decode encoder decoder input_sentence w2i max_target_length =
           Inr (input_tokens, ids, atts, steps) \<and>
         steps \<le> max_target_length \<and> length ids \<le> steps \<and>
         ((length ids = max_target_length \<and> steps = max_target_length) \<or>
          (length ids < max_target_length \<and> steps = Suc (length ids))) \<and>
         (\<forall>eos. getitem w2i END_OF_SEQUENCE = Inr eos \<longrightarrow>
            eos \<notin> set ids \<and>
            ids = takeWhile (\<lambda>tok. tok \<noteq> eos)
                    (greedy_predictions decoder enc max_target_length ([sos], hidden, cell)) \<and>
            (length ids < max_target_length \<longrightarrow>
               length ids <
                 length (greedy_predictions decoder enc max_target_length ([sos], hidden, cell)) \<and>
               greedy_predictions decoder enc max_target_length ([sos], hidden, cell) !
                 length ids = eos)) \<and>
         lookup_all i2w ids = Inr ws)) \<and>
   ((\<forall>w \<in> set (py_split input_sentence). map_of w2i w \<noteq> None) \<and>
    map_of w2i START_OF_SEQUENCE \<noteq> None \<and> map_of w2i END_OF_SEQUENCE \<noteq> None \<and>
    (\<forall>tok h c e. \<exists>row. fst (decoder [tok] h c e) = [row] \<and> length row = V) \<and> 0 < V \<and>
    (\<forall>i < V. map_of i2w i \<noteq> None) \<longrightarrow>
      (\<exists>ws. generate_predictions encoder decoder input_sentence w2i i2w max_target_length = Inr ws))"
proof (intro conjI allI impI)
  fix ws
  assume "generate_predictions encoder decoder input_sentence w2i i2w max_target_length = Inr ws \<or>
         test encoder decoder input_sentence w2i i2w max_target_length = Inr ws"
  then obtain input_tokens ids atts steps where
    g: "greedy_decode encoder decoder input_sentence w2i max_target_length =
           Inr (input_tokens, ids, atts, steps)"
    and ws: "lookup_all i2w ids = Inr ws"
    by (auto simp: generate_predictions_def test_def split: sum.splits prod.splits)
  from greedy_decode_result [OF g]
  have b: "steps \<le> max_target_length" "length ids \<le> steps"
    and noeos: "\<forall>eos. getitem w2i END_OF_SEQUENCE = Inr eos \<longrightarrow> eos \<notin> set ids"
    by blast+
  from greedy_decode_stops [OF g] obtain enc hidden cell sos where
    t: "lookup_all w2i (py_split input_sentence) = Inr input_tokens"
    and e: "encoder [input_tokens] = (enc, hidden, cell)"
    and s: "getitem w2i START_OF_SEQUENCE = Inr sos"
    and count: "(length ids = max_target_length \<and> steps = max_target_length) \<or>
          (length ids < max_target_length \<and> steps = Suc (length ids))"
    and stop: "\<forall>eos. getitem w2i END_OF_SEQUENCE = Inr eos \<longrightarrow>
        ids = takeWhile (\<lambda>tok. tok \<noteq> eos)
                (greedy_predictions decoder enc max_target_length ([sos], hidden, cell)) \<and>
        (length ids < max_target_length \<longrightarrow>
           length ids <
             length (greedy_predictions decoder enc max_target_length ([sos], hidden, cell)) \<and>
           greedy_predictions decoder enc max_target_length ([sos], hidden, cell) !
             length ids = eos)"
    by blast
  from noeos stop
  have both: "\<forall>eos. getitem w2i END_OF_SEQUENCE = Inr eos \<longrightarrow>
            eos \<notin> set ids \<and>
            ids = takeWhile (\<lambda>tok. tok \<noteq> eos)
                    (greedy_predictions decoder enc max_target_length ([sos], hidden, cell)) \<and>
            (length ids < max_target_length \<longrightarrow>
               length ids <
                 length (greedy_predictions decoder enc max_target_length ([sos], hidden, cell)) \<and>
               greedy_predictions decoder enc max_target_length ([sos], hidden, cell) !
                 length ids = eos)"
    by blast
  from t e s g b count both ws
  show "\<exists>input_tokens ids atts steps enc hidden cell sos.
         lookup_all w2i (py_split input_sentence) = Inr input_tokens \<and>
         encoder [input_tokens] = (enc, hidden, cell) \<and>
         getitem w2i START_OF_SEQUENCE = Inr sos \<and>
         greedy_decode encoder decoder input_sentence w2i max_target_length =
           Inr (input_tokens, ids, atts, steps) \<and>
         steps \<le> max_target_length \<and> length ids \<le> steps \<and>
         ((length ids = max_target_length \<and> steps = max_target_length) \<or>
          (length ids < max_target_length \<and> steps = Suc (length ids))) \<and>
         (\<forall>eos. getitem w2i END_OF_SEQUENCE = Inr eos \<longrightarrow>
            eos \<notin> set ids \<and>
            ids = takeWhile (\<lambda>tok. tok \<noteq> eos)
                    (greedy_predictions decoder enc max_target_length ([sos], hidden, cell)) \<and>
            (length ids < max_target_length \<longrightarrow>
               length ids <
                 length (greedy_predictions decoder enc max_target_length ([sos], hidden, cell)) \<and>
               greedy_predictions decoder enc max_target_length ([sos], hidden, cell) !
                 length ids = eos)) \<and>
         lookup_all i2w ids = Inr ws"
    by blast
next
  assume a: "(\<forall>w \<in> set (py_split input_sentence). map_of w2i w \<noteq> None) \<and>
    map_of w2i START_OF_SEQUENCE \<noteq> None \<and> map_of w2i END_OF_SEQUENCE \<noteq> None \<and>
    (\<forall>tok h c e. \<exists>row. fst (decoder [tok] h c e) = [row] \<and> length row = V) \<and> 0 < V \<and>
    (\<forall>i < V. map_of i2w i \<noteq> None)"
  then obtain input_tokens where t: "lookup_all w2i (py_split input_sentence) = Inr input_tokens"
    using lookup_all_total [of "py_split input_sentence" w2i] by blast
  obtain enc hidden cell where e: "encoder [input_tokens] = (enc, hidden, cell)"
    by (cases "encoder [input_tokens]")
  from a obtain sos eos where s: "getitem w2i START_OF_SEQUENCE = Inr sos"
    and eos: "getitem w2i END_OF_SEQUENCE = Inr eos"
    by (auto simp: getitem_def)
  from a have shape: "\<forall>tok h c e. \<exists>row. fst (decoder [tok] h c e) = [row] \<and> length row = V"
    and V: "0 < V" by blast+
  have "\<forall>i \<in> set ([]::nat list). i < V" by simp
  from greedy_loop_total [OF shape V eos this, of enc max_target_length sos hidden cell "[]" 0]
  obtain ids atts steps where
    l: "greedy_loop decoder w2i enc max_target_length ([sos], hidden, cell) [] [] 0 = Inr (ids, atts, steps)"
    and small: "\<forall>i \<in> set ids. i < V"
    by blast
  from small a have "\<forall>i \<in> set ids. map_of i2w i \<noteq> None" by blast
  then obtain ws where "lookup_all i2w ids = Inr ws"
    using lookup_all_total [of ids i2w] by blast
  then have "generate_predictions encoder decoder input_sentence w2i i2w max_target_length = Inr ws"
    by (simp add: generate_predictions_def greedy_decode_def t e s l)
  then show "\<exists>ws. generate_predictions encoder decoder input_sentence w2i i2w max_target_length = Inr ws"
    by blast
qed

theorem greedy_decoding_bounded_witness:
  "generate_predictions example_encoder example_greedy_decoder ''two two'' example_vocab
       (invert_vocab example_vocab) 10 = Inr [''two''] \<and>
   getitem example_vocab END_OF_SEQUENCE = Inr 1 \<and>
   (\<exists>input_tokens ids atts steps.
      greedy_decode example_encoder example_greedy_decoder ''two two'' example_vocab 10 =
        Inr (input_tokens, ids, atts, steps) \<and>
      steps \<le> 10 \<and> length ids \<le> steps \<and>
      ((length ids = 10 \<and> steps = 10) \<or> (length ids < 10 \<and> steps = Suc (length ids))) \<and>
      1 \<notin> set ids \<and>
      ids = takeWhile (\<lambda>tok. tok \<noteq> 1)
              (greedy_predictions example_greedy_decoder () 10 ([0], (), ())) \<and>
      lookup_all (invert_vocab example_vocab) ids = Inr [''two'']) \<and>
   takeWhile (\<lambda>tok. tok \<noteq> 1)
     (greedy_predictions example_greedy_decoder () 10 ([0], (), ())) = [3] \<and>
   list_all (\<lambda>w. map_of example_vocab w \<noteq> None) (py_split ''two two'') \<and>
   map_of example_vocab START_OF_SEQUENCE \<noteq> None \<and>
   map_of example_vocab END_OF_SEQUENCE \<noteq> None \<and>
   (\<forall>tok h c e. \<exists>row. fst (example_greedy_decoder [tok] h c e) = [row] \<and> length row = 4) \<and>
   (0::nat) < 4 \<and>
   list_all (\<lambda>i. map_of (invert_vocab example_vocab) i \<noteq> None) [0 ..< 4] \<and>
   (\<exists>ws. generate_predictions example_encoder example_greedy_decoder ''two two'' example_vocab
       (invert_vocab example_vocab) 10 = Inr ws)"
proof -
  have run: "generate_predictions example_encoder example_greedy_decoder ''two two'' example_vocab
       (invert_vocab example_vocab) 10 = Inr [''two'']"
    by code_simp
  have eos: "getitem example_vocab END_OF_SEQUENCE = Inr 1"
    and sos: "getitem example_vocab START_OF_SEQUENCE = Inr 0"
    by (simp_all add: getitem_def example_vocab_def START_OF_SEQUENCE_def END_OF_SEQUENCE_def)
  have preds: "takeWhile (\<lambda>tok. tok \<noteq> 1)
     (greedy_predictions example_greedy_decoder () 10 ([0], (), ())) = [3]"
    by code_simp
  have h1: "\<forall>w \<in> set (py_split ''two two''). map_of example_vocab w \<noteq> None"
    by (simp add: py_split_def is_space_def example_vocab_def)
  have h2: "map_of example_vocab START_OF_SEQUENCE \<noteq> None"
    and h3: "map_of example_vocab END_OF_SEQUENCE \<noteq> None"
    by (simp_all add: example_vocab_def START_OF_SEQUENCE_def END_OF_SEQUENCE_def)
  have h4: "\<forall>tok h c e. \<exists>row. fst (example_greedy_decoder [tok] h c e) = [row] \<and> length row = 4"
    by (simp add: example_greedy_decoder_def)
  have h5: "(0::nat) < 4" by simp
  have "map_of (invert_vocab example_vocab) i \<noteq> None" if "i < 4" for i
  proof -
    from that have "i = 0 \<or> i = 1 \<or> i = 2 \<or> i = 3" by arith
    then show ?thesis
      by (auto simp: invert_vocab_def example_vocab_def)
  qed
  then have h6: "\<forall>i < 4. map_of (invert_vocab example_vocab) i \<noteq> None"
    by blast
  note inst = greedy_decoding_bounded [where encoder = example_encoder
      and decoder = example_greedy_decoder and input_sentence = "''two two''"
      and ?w2i.0 = example_vocab and ?i2w.0 = "invert_vocab example_vocab"
      and max_target_length = 10 and V = 4]
  from inst [THEN conjunct1, rule_format, OF disjI1, OF run]
  obtain input_tokens ids atts steps enc hidden cell s where
    s: "getitem example_vocab START_OF_SEQUENCE = Inr s"
    and g: "greedy_decode example_encoder example_greedy_decoder ''two two'' example_vocab 10 =
        Inr (input_tokens, ids, atts, steps)"
    and b: "steps \<le> 10" "length ids \<le> steps"
    and count: "(length ids = 10 \<and> steps = 10) \<or> (length ids < 10 \<and> steps = Suc (length ids))"
    and stop: "\<forall>eos. getitem example_vocab END_OF_SEQUENCE = Inr eos \<longrightarrow>
        eos \<notin> set ids \<and>
        ids = takeWhile (\<lambda>tok. tok \<noteq> eos)
                (greedy_predictions example_greedy_decoder enc 10 ([s], hidden, cell)) \<and>
        (length ids < 10 \<longrightarrow>
           length ids < length (greedy_predictions example_greedy_decoder enc 10 ([s], hidden, cell)) \<and>
           greedy_predictions example_greedy_decoder enc 10 ([s], hidden, cell) ! length ids = eos)"
    and ws: "lookup_all (invert_vocab example_vocab) ids = Inr [''two'']"
    by (elim exE conjE)
  from s sos have s0: "s = 0" by simp
  have u: "enc = ()" "hidden = ()" "cell = ()" by simp_all
  from stop [rule_format, OF eos]
  have noeos: "1 \<notin> set ids"
    and ids: "ids = takeWhile (\<lambda>tok. tok \<noteq> 1)
                (greedy_predictions example_greedy_decoder () 10 ([0], (), ()))"
    unfolding s0 u by blast+
  from g b count noeos ids ws
  have a: "\<exists>input_tokens ids atts steps.
      greedy_decode example_encoder example_greedy_decoder ''two two'' example_vocab 10 =
        Inr (input_tokens, ids, atts, steps) \<and>
      steps \<le> 10 \<and> length ids \<le> steps \<and>
      ((length ids = 10 \<and> steps = 10) \<or> (length ids < 10 \<and> steps = Suc (length ids))) \<and>
      1 \<notin> set ids \<and>
      ids = takeWhile (\<lambda>tok. tok \<noteq> 1)
              (greedy_predictions example_greedy_decoder () 10 ([0], (), ())) \<and>
      lookup_all (invert_vocab example_vocab) ids = Inr [''two'']"
    by (intro exI conjI)
  have hyps: "(\<forall>w \<in> set (py_split ''two two''). map_of example_vocab w \<noteq> None) \<and>
    map_of example_vocab START_OF_SEQUENCE \<noteq> None \<and> map_of example_vocab END_OF_SEQUENCE \<noteq> None \<and>
    (\<forall>tok h c e. \<exists>row. fst (example_greedy_decoder [tok] h c e) = [row] \<and> length row = 4) \<and>
    0 < (4::nat) \<and> (\<forall>i < 4. map_of (invert_vocab example_vocab) i \<noteq> None)"
    using h1 h2 h3 h4 h5 h6 by (intro conjI)
  from inst [THEN conjunct2, rule_format, OF hyps]
  have r: "\<exists>ws. generate_predictions example_encoder example_greedy_decoder ''two two'' example_vocab
       (invert_vocab example_vocab) 10 = Inr ws" .
  have h1': "list_all (\<lambda>w. map_of example_vocab w \<noteq> None) (py_split ''two two'')"
    using h1 by (simp add: list_all_iff)
  have h6': "list_all (\<lambda>i. map_of (invert_vocab example_vocab) i \<noteq> None) [0 ..< 4]"
    using h6 by (simp add: list_all_iff)
  from run eos a preds h1' h2 h3 h4 h5 h6' r show ?thesis
    by (intro conjI)
qed

text \<open>
  C10. When the first greedy prediction is the end token, \<^verbatim>\<open>test\<close> fails: the list of
  attention matrices is empty and stacking it raises ValueError (or the conversion of the
  input tokens fails before, with KeyError, when \<^verbatim>\<open>index_to_word\<close> lacks one of them).
  Equivalently, a sentence that \<^verbatim>\<open>test\<close> returns is never empty.
\<close>

theorem test_fails_on_immediate_eos:
  "(\<forall>input_tokens enc hidden cell sos eos outp h c a.
      lookup_all w2i (py_split input_sentence) = Inr input_tokens \<and>
      encoder [input_tokens] = (enc, hidden, cell) \<and>
      getitem w2i START_OF_SEQUENCE = Inr sos \<and> getitem w2i END_OF_SEQUENCE = Inr eos \<and>
      decoder [sos] hidden cell enc = (outp, h, c, a) \<and> predicted_token outp = Inr eos \<and>
      0 < max_target_length \<longrightarrow>
      test encoder decoder input_sentence w2i i2w max_target_length =
        (case lookup_all i2w input_tokens of Inl e \<Rightarrow> Inl e | Inr ws \<Rightarrow> Inl ValueError)) \<and>
   (\<forall>ws. test encoder decoder input_sentence w2i i2w max_target_length = Inr ws \<longrightarrow> ws \<noteq> [])"
proof (intro conjI allI impI)
  fix input_tokens enc hidden cell sos eos outp h c a
  assume a: "lookup_all w2i (py_split input_sentence) = Inr input_tokens \<and>
      encoder [input_tokens] = (enc, hidden, cell) \<and>
      getitem w2i START_OF_SEQUENCE = Inr sos \<and> getitem w2i END_OF_SEQUENCE = Inr eos \<and>
      decoder [sos] hidden cell enc = (outp, h, c, a) \<and> predicted_token outp = Inr eos \<and>
      0 < max_target_length"
  then obtain n where n: "max_target_length = Suc n"
    by (cases max_target_length) auto
  have "greedy_loop decoder w2i enc (Suc n) ([sos], hidden, cell) [] [] 0 = Inr ([], [], Suc 0)"
    using a by simp
  then have "greedy_decode encoder decoder input_sentence w2i max_target_length =
      Inr (input_tokens, [], [], Suc 0)"
    using a by (simp add: greedy_decode_def n)
  then show "test encoder decoder input_sentence w2i i2w max_target_length =
        (case lookup_all i2w input_tokens of Inl e \<Rightarrow> Inl e | Inr ws \<Rightarrow> Inl ValueError)"
    by (simp add: test_def vstack_def split: sum.splits)
next
  fix ws
  assume t: "test encoder decoder input_sentence w2i i2w max_target_length = Inr ws"
  then obtain input_tokens ids atts steps where
    g: "greedy_decode encoder decoder input_sentence w2i max_target_length =
           Inr (input_tokens, ids, atts, steps)"
    and ws: "lookup_all i2w ids = Inr ws" and atts: "atts \<noteq> []"
    by (auto simp: test_def vstack_def split: sum.splits prod.splits if_splits)
  from greedy_decode_result [OF g] atts have "ids \<noteq> []" by auto
  with lookup_all_length [OF ws] show "ws \<noteq> []" by auto
qed

theorem test_fails_on_immediate_eos_witness:
  "lookup_all example_vocab (py_split ''two'') = Inr [3] \<and>
   example_encoder [[3]] = ((), (), ()) \<and>
   getitem example_vocab START_OF_SEQUENCE = Inr 0 \<and>
   getitem example_vocab END_OF_SEQUENCE = Inr 1 \<and>
   example_eos_decoder [0] () () () = ([[0, 1, 0, 0]], (), (), ()) \<and>
   predicted_token [[0, 1, 0, 0]] = Inr 1 \<and> (0::nat) < 10 \<and>
   lookup_all (invert_vocab example_vocab) [3] = Inr [''two''] \<and>
   test example_encoder example_eos_decoder ''two'' example_vocab (invert_vocab example_vocab) 10 =
     Inl ValueError \<and>
   test example_encoder example_greedy_decoder ''two two'' example_vocab
       (invert_vocab example_vocab) 10 = Inr [''two''] \<and>
   [''two''] \<noteq> ([] :: string list)"
proof -
  have h1: "lookup_all example_vocab (py_split ''two'') = Inr [3]"
    by code_simp
  have h2: "example_encoder [[3]] = ((), (), ())"
    by (simp add: example_encoder_def)
  have h3: "getitem example_vocab START_OF_SEQUENCE = Inr 0"
    and h4: "getitem example_vocab END_OF_SEQUENCE = Inr 1"
    by (simp_all add: getitem_def example_vocab_def START_OF_SEQUENCE_def END_OF_SEQUENCE_def)
  have h5: "example_eos_decoder [0] () () () = ([[0, 1, 0, 0]], (), (), ())"
    by (simp add: example_eos_decoder_def)
  have h6: "predicted_token [[0, 1, 0, 0]] = Inr 1"
    by (simp add: predicted_token_def argmax_def)
  have h7: "(0::nat) < 10" by simp
  have h8: "lookup_all (invert_vocab example_vocab) [3] = Inr [''two'']"
    by code_simp
  have ok: "test example_encoder example_greedy_decoder ''two two'' example_vocab
       (invert_vocab example_vocab) 10 = Inr [''two'']"
    by code_simp
  note inst = test_fails_on_immediate_eos [where ?w2i.0 = example_vocab
      and input_sentence = "''two''" and encoder = example_encoder
      and decoder = example_eos_decoder and ?i2w.0 = "invert_vocab example_vocab"
      and max_target_length = 10]
  from inst h1 h2 h3 h4 h5 h6 h7
  have "test example_encoder example_eos_decoder ''two'' example_vocab (invert_vocab example_vocab) 10 =
      (case lookup_all (invert_vocab example_vocab) [3] of Inl e \<Rightarrow> Inl e | Inr ws \<Rightarrow> Inl ValueError)"
    by blast
  then have fail: "test example_encoder example_eos_decoder ''two'' example_vocab
      (invert_vocab example_vocab) 10 = Inl ValueError"
    unfolding h8 by simp
  from test_fails_on_immediate_eos [where ?w2i.0 = example_vocab
      and input_sentence = "''two two''" and encoder = example_encoder
      and decoder = example_greedy_decoder and ?i2w.0 = "invert_vocab example_vocab"
      and max_target_length = 10] ok
  have ne: "[''two''] \<noteq> ([] :: string list)"
    by blast
  from h1 h2 h3 h4 h5 h6 h7 h8 fail ok ne show ?thesis by blast
qed

section \<open>Properties of the dataset generator\<close>

lemma valid_draw_in_range: "valid_draw d \<Longrightarrow> draw_in_range d"
  by (simp add: valid_draw_def draw_in_range_def)

lemma make_problem_division:
  assumes "draw_in_range d"
  shows "result (make_problem fdiv round2 num2words d) \<noteq> None \<and>
     num1 (make_problem fdiv round2 num2words d) = draw_num1 d \<and>
     (operation (make_problem fdiv round2 num2words d) = ''divided by'' \<longrightarrow>
        num2 (make_problem fdiv round2 num2words d) =
          (if draw_num2 d = 0 then draw_resample d else draw_num2 d) \<and>
        result (make_problem fdiv round2 num2words d) =
          Some (FloatV (round2 (fdiv (draw_num1 d)
            (if draw_num2 d = 0 then draw_resample d else draw_num2 d)))) \<and>
        answer (make_problem fdiv round2 num2words d) =
          replace_char CHR '','' '''' (replace_char CHR ''-'' '' ''
            (num2words (FloatV (round2 (fdiv (draw_num1 d)
              (if draw_num2 d = 0 then draw_resample d else draw_num2 d)))))))"
proof -
  from assms have c: "draw_choice d = 0 \<or> draw_choice d = 1 \<or> draw_choice d = 2 \<or> draw_choice d = 3"
    by (auto simp: draw_in_range_def)
  from assms have n: "draw_resample d \<noteq> 0"
    by (auto simp: draw_in_range_def)
  from c n show ?thesis
    by (auto simp: make_problem_def operations_def Let_def)
qed

lemma resample_covers_zero:
  assumes "draw_choice d = 3" "draw_num2 d = 0" "1 \<le> draw_resample d" "draw_resample d \<le> 100"
  shows "num2 (make_problem fdiv round2 num2words d) = draw_resample d \<and>
     result (make_problem fdiv round2 num2words d) =
       Some (FloatV (round2 (fdiv (draw_num1 d) (draw_resample d))))"
  using assms by (auto simp: make_problem_def operations_def Let_def)

lemma generate_problem_source:
  "generate_problem fdiv round2 num2words ds existing = Some (qa, existing', ds') \<Longrightarrow>
   \<exists>d \<in> set ds. qa = (question (make_problem fdiv round2 num2words d),
                       answer (make_problem fdiv round2 num2words d)) \<and>
     qa \<notin> existing \<and> existing' = insert qa existing \<and> set ds' \<subseteq> set ds"
  by (induction ds) (auto simp: Let_def split: if_splits)

lemma generate_dataset_source:
  "generate_dataset fdiv round2 num2words n ds existing = Some (rows, existing', ds') \<Longrightarrow>
   \<forall>qa \<in> set rows. \<exists>d \<in> set ds.
     qa = (question (make_problem fdiv round2 num2words d),
           answer (make_problem fdiv round2 num2words d))"
proof (induction n arbitrary: ds existing rows existing' ds')
  case 0
  then show ?case by simp
next
  case (Suc n)
  from Suc.prems obtain qa e1 d1 rows1 where
    g: "generate_problem fdiv round2 num2words ds existing = Some (qa, e1, d1)"
    and r: "generate_dataset fdiv round2 num2words n d1 e1 = Some (rows1, existing', ds')"
    and rows: "rows = qa # rows1"
    by (auto split: option.splits)
  from generate_problem_source [OF g] have
    hd: "\<exists>d \<in> set ds. qa = (question (make_problem fdiv round2 num2words d),
                       answer (make_problem fdiv round2 num2words d))"
    and sub: "set d1 \<subseteq> set ds"
    by auto
  from Suc.IH [OF r] sub have
    "\<forall>qa \<in> set rows1. \<exists>d \<in> set ds.
       qa = (question (make_problem fdiv round2 num2words d),
             answer (make_problem fdiv round2 num2words d))"
    by blast
  with hd rows show ?case by simp
qed

lemma example_problem:
  "make_problem example_fdiv example_round2 example_num2words example_draw =
     \<lparr>num1 = 7, num2 = 2, operation = ''divided by'', result = Some (FloatV (7 / 2)),
      question = ''seven divided by two'', answer = ''three point five''\<rparr>"
  by (simp add: make_problem_def operations_def example_draw_def example_fdiv_def
      example_round2_def replace_char_def numeral_3_eq_3)

text \<open>
  C8. Division by zero never reaches the caller of the generator. Let the random module
  return anything within its contract, and let even the first draw of the second operand
  be 0. Then every pair that \<^verbatim>\<open>generate_dataset\<close> produces is the question and answer of
  one loop iteration in which the result is not \<^verbatim>\<open>None\<close> (the answer is never the
  \<^verbatim>\<open>undefined\<close> branch); and when the operation is the division, the divisor used is the
  first draw, or the resampled one when the first draw was 0, it is a nonzero integer in
  \<open>[1, 100]\<close>, the result is the rounded quotient \<^verbatim>\<open>round(num1 / num2, 2)\<close> by that divisor
  and the answer is its word form.
\<close>

theorem division_never_undefined:
  assumes "list_all draw_in_range ds"
    and "generate_dataset fdiv round2 num2words n ds existing = Some (rows, existing', ds')"
  shows "\<forall>qa \<in> set rows. \<exists>d \<in> set ds.
     qa = (question (make_problem fdiv round2 num2words d),
           answer (make_problem fdiv round2 num2words d)) \<and>
     result (make_problem fdiv round2 num2words d) \<noteq> None \<and>
     (operation (make_problem fdiv round2 num2words d) = ''divided by'' \<longrightarrow>
        num2 (make_problem fdiv round2 num2words d) =
          (if draw_num2 d = 0 then draw_resample d else draw_num2 d) \<and>
        num2 (make_problem fdiv round2 num2words d) \<noteq> 0 \<and>
        1 \<le> num2 (make_problem fdiv round2 num2words d) \<and>
        num2 (make_problem fdiv round2 num2words d) \<le> 100 \<and>
        result (make_problem fdiv round2 num2words d) =
          Some (FloatV (round2 (fdiv (num1 (make_problem fdiv round2 num2words d))
                                     (num2 (make_problem fdiv round2 num2words d))))) \<and>
        answer (make_problem fdiv round2 num2words d) =
          replace_char CHR '','' '''' (replace_char CHR ''-'' '' ''
            (num2words (FloatV (round2 (fdiv (num1 (make_problem fdiv round2 num2words d))
                                             (num2 (make_problem fdiv round2 num2words d))))))))"
proof
  fix qa assume "qa \<in> set rows"
  with generate_dataset_source [OF assms(2)] obtain d where d: "d \<in> set ds"
    and qa: "qa = (question (make_problem fdiv round2 num2words d),
                   answer (make_problem fdiv round2 num2words d))"
    by blast
  from d assms(1) have v: "draw_in_range d"
    by (simp add: list_all_iff)
  define divisor where "divisor = (if draw_num2 d = 0 then draw_resample d else draw_num2 d)"
  from v have r: "divisor \<noteq> 0" "1 \<le> divisor" "divisor \<le> 100"
    by (auto simp: draw_in_range_def divisor_def)
  from make_problem_division [OF v, of fdiv round2 num2words] r qa
  have "qa = (question (make_problem fdiv round2 num2words d),
           answer (make_problem fdiv round2 num2words d)) \<and>
     result (make_problem fdiv round2 num2words d) \<noteq> None \<and>
     (operation (make_problem fdiv round2 num2words d) = ''divided by'' \<longrightarrow>
        num2 (make_problem fdiv round2 num2words d) =
          (if draw_num2 d = 0 then draw_resample d else draw_num2 d) \<and>
        num2 (make_problem fdiv round2 num2words d) \<noteq> 0 \<and>
        1 \<le> num2 (make_problem fdiv round2 num2words d) \<and>
        num2 (make_problem fdiv round2 num2words d) \<le> 100 \<and>
        result (make_problem fdiv round2 num2words d) =
          Some (FloatV (round2 (fdiv (num1 (make_problem fdiv round2 num2words d))
                                     (num2 (make_problem fdiv round2 num2words d))))) \<and>
        answer (make_problem fdiv round2 num2words d) =
          replace_char CHR '','' '''' (replace_char CHR ''-'' '' ''
            (num2words (FloatV (round2 (fdiv (num1 (make_problem fdiv round2 num2words d))
                                             (num2 (make_problem fdiv round2 num2words d))))))))"
    unfolding divisor_def by simp
  with d show "\<exists>d \<in> set ds.
     qa = (question (make_problem fdiv round2 num2words d),
           answer (make_problem fdiv round2 num2words d)) \<and>
     result (make_problem fdiv round2 num2words d) \<noteq> None \<and>
     (operation (make_problem fdiv round2 num2words d) = ''divided by'' \<longrightarrow>
        num2 (make_problem fdiv round2 num2words d) =
          (if draw_num2 d = 0 then draw_resample d else draw_num2 d) \<and>
        num2 (make_problem fdiv round2 num2words d) \<noteq> 0 \<and>
        1 \<le> num2 (make_problem fdiv round2 num2words d) \<and>
        num2 (make_problem fdiv round2 num2words d) \<le> 100 \<and>
        result (make_problem fdiv round2 num2words d) =
          Some (FloatV (round2 (fdiv (num1 (make_problem fdiv round2 num2words d))
                                     (num2 (make_problem fdiv round2 num2words d))))) \<and>
        answer (make_problem fdiv round2 num2words d) =
          replace_char CHR '','' '''' (replace_char CHR ''-'' '' ''
            (num2words (FloatV (round2 (fdiv (num1 (make_problem fdiv round2 num2words d))
                                             (num2 (make_problem fdiv round2 num2words d))))))))"
    by (rule bexI [rotated])
qed

theorem division_never_undefined_witness:
  "list_all draw_in_range [example_draw] \<and> draw_num2 example_draw = 0 \<and>
   generate_dataset example_fdiv example_round2 example_num2words 1 [example_draw] {} =
     Some ([(''seven divided by two'', ''three point five'')],
           {(''seven divided by two'', ''three point five'')}, []) \<and>
   (\<exists>d \<in> set [example_draw].
      (''seven divided by two'', ''three point five'') =
        (question (make_problem example_fdiv example_round2 example_num2words d),
         answer (make_problem example_fdiv example_round2 example_num2words d)) \<and>
      operation (make_problem example_fdiv example_round2 example_num2words d) = ''divided by'' \<and>
      num2 (make_problem example_fdiv example_round2 example_num2words d) = 2 \<and>
      result (make_problem example_fdiv example_round2 example_num2words d) =
        Some (FloatV (example_round2 (example_fdiv 7 2))))"
proof -
  have h1: "list_all draw_in_range [example_draw]"
    by (simp add: draw_in_range_def example_draw_def)
  have h0: "draw_num2 example_draw = 0"
    by (simp add: example_draw_def)
  have h2: "generate_dataset example_fdiv example_round2 example_num2words 1 [example_draw] {} =
     Some ([(''seven divided by two'', ''three point five'')],
           {(''seven divided by two'', ''three point five'')}, [])"
    by (simp add: example_problem)
  have q: "example_round2 (example_fdiv 7 2) = 7 / 2"
    by (simp add: example_round2_def example_fdiv_def)
  from division_never_undefined [OF h1 h2]
  have "\<exists>d \<in> set [example_draw].
      (''seven divided by two'', ''three point five'') =
        (question (make_problem example_fdiv example_round2 example_num2words d),
         answer (make_problem example_fdiv example_round2 example_num2words d)) \<and>
      operation (make_problem example_fdiv example_round2 example_num2words d) = ''divided by'' \<and>
      num2 (make_problem example_fdiv example_round2 example_num2words d) = 2 \<and>
      result (make_problem example_fdiv example_round2 example_num2words d) =
        Some (FloatV (example_round2 (example_fdiv 7 2)))"
    by (simp add: example_problem q)
  with h0 h1 h2 show ?thesis by blast
qed

end
